theory Spec2Isabelle
  imports Complex_Main "HOL-Library.Multiset"
begin

section \<open>Label alignment and split consolidation of heareval/embeddings/task\_embeddings.py\<close>

text \<open>
  The theory embeds two functions of \<^verbatim>\<open>task_embeddings.py\<close>:
  \<^verbatim>\<open>get_labels_for_timestamps\<close> (the label aligner) and \<^verbatim>\<open>memmap_embeddings\<close>
  (the split consolidator). Times and label values are Python floats in the source; they
  are modelled as exact rationals, so rounding is outside the model. Every exception the
  source can raise on the modelled inputs is a value of the type \<open>error\<close>, and a function
  that can raise returns \<open>error + 'a\<close> with \<open>Inl\<close> for the exception.
\<close>

subsection \<open>Exceptions\<close>

datatype error =
    AssertionError
  | ValueError
  | IndexError
  | TypeError
  | UnboundLocalError
  | FileNotFoundError

text \<open>
  A Python loop that appends one result per item and is aborted by the first exception.
\<close>

fun map_result :: "('a \<Rightarrow> error + 'b) \<Rightarrow> 'a list \<Rightarrow> error + 'b list" where
  "map_result f [] = Inr []"
| "map_result f (x # xs) =
     (case f x of
        Inl e \<Rightarrow> Inl e
      | Inr y \<Rightarrow> (case map_result f xs of Inl e \<Rightarrow> Inl e | Inr ys \<Rightarrow> Inr (y # ys)))"

subsection \<open>Label events\<close>

text \<open>
  One entry of a clip's label list: the dictionary read as \<^verbatim>\<open>event["start"]\<close>,
  \<^verbatim>\<open>event["end"]\<close>, \<^verbatim>\<open>event["label"]\<close> and \<^verbatim>\<open>event["values"]\<close>. Each mode reads
  only some of the keys; an event is taken to carry the keys its mode reads, as strings
  (label), numbers (start, end) and a list of numbers (values).
\<close>

record event =
  ev_start :: rat
  ev_end :: rat
  ev_label :: string
  ev_values :: "rat list"

text \<open>
  A label as the aligner emits it: a Python \<^verbatim>\<open>str\<close>, or \<^verbatim>\<open>None\<close> (the value of
  \<^verbatim>\<open>last_label\<close> before the first choice and of \<^verbatim>\<open>default_label\<close> when the caller passes
  none).
\<close>

type_synonym pylabel = "string option"

text \<open>
  One entry of the per-timestamp output: a list of labels in mode \<^verbatim>\<open>default\<close>, the list
  \<^verbatim>\<open>v.tolist()\<close> of an interpolated vector in the other modes.
\<close>

datatype ts_label = Labels "pylabel list" | Vector "rat list"

subsection \<open>The interval tree of mode default\<close>

text \<open>
  \<^verbatim>\<open>intervaltree.IntervalTree\<close> is a set of intervals \<open>(begin, end, data)\<close>. \<^verbatim>\<open>addi\<close> ignores
  an interval that is already in the tree and raises \<^verbatim>\<open>ValueError\<close> on a null interval
  (\<open>begin \<ge> end\<close>); \<^verbatim>\<open>tree[t]\<close> is the set of intervals with \<open>begin \<le> t < end\<close>. The set
  is kept here as a duplicate-free list in insertion order. The source iterates over the
  Python set \<^verbatim>\<open>tree[t]\<close>, whose order is not determined by the program: the theorems below
  use only the length and the elements of a query's result, never their order.
\<close>

type_synonym interval = "rat \<times> rat \<times> string"

definition iv_begin :: "interval \<Rightarrow> rat" where
  "iv_begin iv = fst iv"

definition iv_end :: "interval \<Rightarrow> rat" where
  "iv_end iv = fst (snd iv)"

definition iv_data :: "interval \<Rightarrow> string" where
  "iv_data iv = snd (snd iv)"

definition is_null :: "interval \<Rightarrow> bool" where
  "is_null iv = (iv_begin iv \<ge> iv_end iv)"

definition addi :: "rat \<Rightarrow> rat \<Rightarrow> string \<Rightarrow> interval list \<Rightarrow> error + interval list" where
  "addi b e d tree =
     (if (b, e, d) \<in> set tree then Inr tree
      else if is_null (b, e, d) then Inl ValueError
      else Inr (tree @ [(b, e, d)]))"

definition tree_at :: "interval list \<Rightarrow> rat \<Rightarrow> interval list" where
  "tree_at tree t = filter (\<lambda>iv. iv_begin iv \<le> t \<and> t < iv_end iv) tree"

text \<open>The constant \<^verbatim>\<open>0.0001\<close> added to every event's end.\<close>

definition epsilon :: rat where
  "epsilon = 1 / 10000"

text \<open>
  \<^verbatim>\<open>for event in label: tree.addi(event["start"], event["end"] + 0.0001, event["label"])\<close>
\<close>

fun add_events :: "event list \<Rightarrow> interval list \<Rightarrow> error + interval list" where
  "add_events [] tree = Inr tree"
| "add_events (ev # evs) tree =
     (case addi (ev_start ev) (ev_end ev + epsilon) (ev_label ev) tree of
        Inl e \<Rightarrow> Inl e
      | Inr tree' \<Rightarrow> add_events evs tree')"

text \<open>
  The body of \<^verbatim>\<open>for j, t in enumerate(timestamps[i])\<close> in mode \<^verbatim>\<open>default\<close>, with
  \<^verbatim>\<open>last_label\<close> threaded through the iterations. Under \<^verbatim>\<open>to_onehot\<close> the list
  \<^verbatim>\<open>interval_labels\<close> has exactly one element when \<^verbatim>\<open>interval_labels[0]\<close> is read, so
  \<open>hd\<close> is that element.
\<close>

definition onehot :: "pylabel list \<Rightarrow> pylabel \<Rightarrow> pylabel \<Rightarrow> pylabel list" where
  "onehot interval_labels last_label default_label =
     (if length interval_labels = 0 then
        [if last_label \<noteq> None then last_label else default_label]
      else if length interval_labels > 1 then
        (if last_label \<noteq> None \<and> last_label \<in> set interval_labels then [last_label]
         else [default_label])
      else interval_labels)"

fun label_timestamps ::
  "interval list \<Rightarrow> bool \<Rightarrow> pylabel \<Rightarrow> pylabel \<Rightarrow> rat list \<Rightarrow> pylabel list list" where
  "label_timestamps tree to_onehot default_label last_label [] = []"
| "label_timestamps tree to_onehot default_label last_label (t # ts) =
     (let interval_labels = map (\<lambda>iv. Some (iv_data iv)) (tree_at tree t) in
      if to_onehot then
        (let interval_labels' = onehot interval_labels last_label default_label in
         interval_labels' #
           label_timestamps tree to_onehot default_label (hd interval_labels') ts)
      else
        interval_labels # label_timestamps tree to_onehot default_label last_label ts)"

text \<open>One iteration of \<^verbatim>\<open>for i, label in enumerate(labels)\<close> in mode \<^verbatim>\<open>default\<close>.\<close>

definition default_clip ::
  "bool \<Rightarrow> pylabel \<Rightarrow> event list \<times> rat list \<Rightarrow> error + ts_label list" where
  "default_clip to_onehot default_label clip =
     (case add_events (fst clip) [] of
        Inl e \<Rightarrow> Inl e
      | Inr tree \<Rightarrow>
          Inr (map Labels (label_timestamps tree to_onehot default_label None (snd clip))))"

subsection \<open>Modes smoothed and continuous\<close>

text \<open>
  One iteration of the clip loop in mode \<^verbatim>\<open>smoothed\<close>. The source fills the dictionary
  \<^verbatim>\<open>events_per_label\<close> and then evaluates \<^verbatim>\<open>sorted(values, key=...)\<close>; \<^verbatim>\<open>values\<close> is a
  local variable of the function (it is assigned in this very statement) that has no
  value yet, so the statement raises \<^verbatim>\<open>UnboundLocalError\<close> in the first iteration and
  the rest of the branch is never reached.
\<close>

definition smoothed_clip :: "event list \<times> rat list \<Rightarrow> error + ts_label list" where
  "smoothed_clip clip = Inl UnboundLocalError"

text \<open>
  \<^verbatim>\<open>np.searchsorted(onsets, t)\<close> with the default \<^verbatim>\<open>side='left'\<close>: on a sorted array, the
  number of elements smaller than \<open>t\<close>. The aligner only calls it on the sorted onsets.
\<close>

definition searchsorted :: "rat list \<Rightarrow> rat \<Rightarrow> nat" where
  "searchsorted a v = length (takeWhile (\<lambda>x. x < v) a)"

text \<open>Scalar multiple and sum of NumPy rows of one length.\<close>

definition scale :: "rat \<Rightarrow> rat list \<Rightarrow> rat list" where
  "scale a v = map (\<lambda>x. a * x) v"

definition vadd :: "rat list \<Rightarrow> rat list \<Rightarrow> rat list" where
  "vadd v w = map (\<lambda>(x, y). x + y) (zip v w)"

text \<open>
  The body of the timestamp loop of mode \<^verbatim>\<open>continuous\<close>. \<^verbatim>\<open>values[0]\<close> on an array with
  no row raises \<^verbatim>\<open>IndexError\<close>; the other reads are in range because
  \<open>0 < upper_idx < len(values) = len(onsets)\<close> there.
\<close>

definition interpolate :: "rat list \<Rightarrow> rat list list \<Rightarrow> rat \<Rightarrow> error + ts_label" where
  "interpolate onsets vals t =
     (let upper_idx = searchsorted onsets t in
      if upper_idx = 0 then
        (if vals = [] then Inl IndexError else Inr (Vector (vals ! 0)))
      else if upper_idx = length vals then Inr (Vector (last vals))
      else
        (let lower = onsets ! (upper_idx - 1);
             upper = onsets ! upper_idx;
             alpha = (t - lower) / (upper - lower)
         in Inr (Vector (vadd (scale (1 - alpha) (vals ! (upper_idx - 1)))
                              (scale alpha (vals ! upper_idx))))))"

text \<open>
  \<^verbatim>\<open>np.asarray(rows).astype(np.float)\<close> needs rows of one length; on ragged rows the
  conversion raises \<^verbatim>\<open>ValueError\<close>. (\<^verbatim>\<open>np.float\<close> is the alias of \<^verbatim>\<open>float\<close> that NumPy
  provided up to release 1.23.)
\<close>

definition ragged :: "rat list list \<Rightarrow> bool" where
  "ragged rows = (\<not> list_all (\<lambda>r. length r = length (hd rows)) rows)"

text \<open>
  \<^verbatim>\<open>sorted([(event['start'], event['values']) for event in label], key=lambda v: v[0])\<close>;
  Python's \<^verbatim>\<open>sorted\<close> is stable, as \<open>sort_key\<close> is.
\<close>

definition sorted_pairs :: "event list \<Rightarrow> (rat \<times> rat list) list" where
  "sorted_pairs label =
     sort_key fst (map (\<lambda>event. (ev_start event, ev_values event)) label)"

text \<open>
  One iteration of the clip loop in mode \<^verbatim>\<open>continuous\<close>: the onsets and the value rows
  of the sorted pairs, then one interpolated row per timestamp.
\<close>

definition continuous_clip :: "event list \<times> rat list \<Rightarrow> error + ts_label list" where
  "continuous_clip clip =
     (let pairs = sorted_pairs (fst clip);
          onsets = map fst pairs;
          vals = map snd pairs
      in if ragged vals then Inl ValueError
         else map_result (interpolate onsets vals) (snd clip))"

subsection \<open>The label aligner\<close>

text \<open>
  \<^verbatim>\<open>get_labels_for_timestamps(labels, timestamps, mode, to_onehot, default_label)\<close>. The
  final \<^verbatim>\<open>else: raise "nope"\<close> raises \<^verbatim>\<open>TypeError\<close> in Python 3, where only exceptions can
  be raised.
\<close>

definition get_labels_for_timestamps ::
  "event list list \<Rightarrow> rat list list \<Rightarrow> string \<Rightarrow> bool \<Rightarrow> pylabel \<Rightarrow> error + ts_label list list" where
  "get_labels_for_timestamps labels timestamps mode to_onehot default_label =
     (if length labels \<noteq> length timestamps then Inl AssertionError
      else
        (case
           (if mode = ''default'' then
              map_result (default_clip to_onehot default_label) (zip labels timestamps)
            else if mode = ''smoothed'' then
              map_result smoothed_clip (zip labels timestamps)
            else if mode = ''continuous'' then
              map_result continuous_clip (zip labels timestamps)
            else Inl TypeError)
         of
           Inl e \<Rightarrow> Inl e
         | Inr timestamp_labels \<Rightarrow>
             if length timestamp_labels \<noteq> length timestamps then Inl AssertionError
             else Inr timestamp_labels))"

subsection \<open>Arrays, JSON values and the files of a split\<close>

text \<open>
  A NumPy array as the consolidator sees it: its shape and its element type. No function
  modelled here reads or compares the cells of an array, so the cells are left out.
\<close>

datatype dtype = Float32 | Float64 | Int64

record ndarray =
  shape :: "nat list"
  dtype :: dtype

definition ndim :: "ndarray \<Rightarrow> nat" where
  "ndim a = length (shape a)"

definition astype :: "ndarray \<Rightarrow> dtype \<Rightarrow> ndarray" where
  "astype a t = a\<lparr>dtype := t\<rparr>"

text \<open>
  What \<^verbatim>\<open>json.load\<close> returns. An object is kept as the list of its (key, value) pairs, one
  pair per key of the loaded dictionary.
\<close>

datatype json =
    JNull
  | JBool bool
  | JNumber rat
  | JString string
  | JArray "json list"
  | JObject "(string \<times> json) list"

text \<open>
  Iterating over a loaded JSON value, as \<^verbatim>\<open>labels += lbl\<close> and the list comprehension over
  \<^verbatim>\<open>timestamps\<close> do: the items of a list, the characters of a string, the keys of a
  dictionary; \<^verbatim>\<open>TypeError\<close> for a number, a boolean or \<^verbatim>\<open>None\<close>. \<^verbatim>\<open>len\<close> counts the same
  items and raises on the same values.
\<close>

fun py_iter :: "json \<Rightarrow> error + json list" where
  "py_iter (JArray xs) = Inr xs"
| "py_iter (JString s) = Inr (map (\<lambda>c. JString [c]) s)"
| "py_iter (JObject kvs) = Inr (map (\<lambda>kv. JString (fst kv)) kvs)"
| "py_iter JNull = Inl TypeError"
| "py_iter (JBool b) = Inl TypeError"
| "py_iter (JNumber n) = Inl TypeError"

definition py_len :: "json \<Rightarrow> error + nat" where
  "py_len j = (case py_iter j of Inl e \<Rightarrow> Inl e | Inr xs \<Rightarrow> Inr (length xs))"

fun isinstance_list :: "json \<Rightarrow> bool" where
  "isinstance_list (JArray xs) = True"
| "isinstance_list j = False"

text \<open>The two keys of \<^verbatim>\<open>task_metadata.json\<close> that \<^verbatim>\<open>memmap_embeddings\<close> reads.\<close>

record metadata =
  embedding_type :: string
  prediction_type :: string

text \<open>
  The per-file artifacts in \<^verbatim>\<open>outdir\<close>, each keyed by the key \<open>f\<close> of \<^verbatim>\<open>split_data\<close> it was
  written for: \<^verbatim>\<open>f.embedding.npy\<close>, \<^verbatim>\<open>f.target-labels.json\<close> and \<^verbatim>\<open>f.timestamps.json\<close>.
  A key that is not in the domain of a map has no such file.
\<close>

record disk =
  embedding_npy :: "string \<rightharpoonup> ndarray"
  target_labels_json :: "string \<rightharpoonup> json"
  timestamps_json :: "string \<rightharpoonup> json"

text \<open>
  The split-level artifacts \<^verbatim>\<open>memmap_embeddings\<close> writes, in the order it writes them:
  the dimension sidecar, the memory-mapped array (its shape), the pickled label list and
  the (file, timestamp) list. \<open>None\<close> is a file that has not been written.
\<close>

record split_files =
  embedding_dimensions_json :: "(nat \<times> nat) option"
  embeddings_npy :: "(nat \<times> nat) option"
  target_labels_pkl :: "json list option"
  filename_timestamps_json :: "(string \<times> json) list option"

definition no_files :: split_files where
  "no_files = \<lparr>embedding_dimensions_json = None, embeddings_npy = None,
                target_labels_pkl = None, filename_timestamps_json = None\<rparr>"

subsection \<open>Pass 1: counting the embeddings\<close>

text \<open>
  The body of the first loop for one file, on the running \<^verbatim>\<open>nembeddings\<close> and \<^verbatim>\<open>ndim\<close>
  (\<open>None\<close> while \<^verbatim>\<open>ndim\<close> is unbound). The array is loaded with
  \<^verbatim>\<open>np.load(embedding_file).astype(np.float32)\<close>.
\<close>

definition size_file ::
  "metadata \<Rightarrow> disk \<Rightarrow> string \<Rightarrow> nat \<times> nat option \<Rightarrow> error + (nat \<times> nat option)" where
  "size_file metadata d f acc =
     (case embedding_npy d f of
        None \<Rightarrow> Inl AssertionError
      | Some stored \<Rightarrow>
          (let emb = astype stored Float32; nembeddings = fst acc in
           if embedding_type metadata = ''scene'' then
             (if ndim emb \<noteq> 1 then Inl AssertionError
              else if dtype emb \<noteq> Float32 then Inl AssertionError
              else Inr (nembeddings + 1, Some (shape emb ! 0)))
           else if embedding_type metadata = ''event''
                 \<or> embedding_type metadata = ''continuous'' then
             (if ndim emb \<noteq> 2 then Inl AssertionError
              else if dtype emb \<noteq> Float32 then Inl AssertionError
              else Inr (nembeddings + shape emb ! 0, Some (shape emb ! 1)))
           else Inl ValueError))"

fun sizing_pass ::
  "metadata \<Rightarrow> disk \<Rightarrow> string list \<Rightarrow> nat \<times> nat option \<Rightarrow> error + (nat \<times> nat option)" where
  "sizing_pass metadata d [] acc = Inr acc"
| "sizing_pass metadata d (f # fs) acc =
     (case size_file metadata d f acc of
        Inl e \<Rightarrow> Inl e
      | Inr acc' \<Rightarrow> sizing_pass metadata d fs acc')"

subsection \<open>Pass 2: filling the array and collecting the labels\<close>

text \<open>
  Whether NumPy can assign an array of shape \<open>src\<close> to a target of shape \<open>tgt\<close> of the same
  rank: every source extent is the target's or 1. Otherwise the assignment raises
  \<^verbatim>\<open>ValueError\<close>.
\<close>

definition broadcastable :: "nat list \<Rightarrow> nat list \<Rightarrow> bool" where
  "broadcastable src tgt = list_all2 (\<lambda>s t. s = t \<or> s = 1) src tgt"

text \<open>
  The check of a scene label list against \<^verbatim>\<open>prediction_type\<close>. In the last branch the
  source builds a \<^verbatim>\<open>NotImplementedError\<close> and does not raise it.
\<close>

definition check_scene_labels :: "string \<Rightarrow> json \<Rightarrow> error + unit" where
  "check_scene_labels ptype lbl =
     (if ptype = ''multiclass'' then
        (case py_len lbl of
           Inl e \<Rightarrow> Inl e
         | Inr n \<Rightarrow> if n = 1 then Inr () else Inl AssertionError)
      else if ptype = ''multilabel'' then
        (if isinstance_list lbl then Inr () else Inl AssertionError)
      else Inr ())"

text \<open>
  The body of the second loop for one file in a scene split, on \<^verbatim>\<open>idx\<close>, \<^verbatim>\<open>labels\<close> and
  \<^verbatim>\<open>filename_timestamps\<close>; \<open>dims\<close> is the shape \<open>(nembeddings, ndim)\<close> of the mapped array.
  \<^verbatim>\<open>embedding_memmap[idx] = emb\<close> raises \<^verbatim>\<open>IndexError\<close> for a row past the end.
\<close>

type_synonym fill_state = "nat \<times> json list \<times> (string \<times> json) list"

definition fill_scene ::
  "metadata \<Rightarrow> nat \<times> nat \<Rightarrow> ndarray \<Rightarrow> json \<Rightarrow> fill_state \<Rightarrow> error + fill_state" where
  "fill_scene metadata dims emb lbl st =
     (case st of (idx, labels, filename_timestamps) \<Rightarrow>
        if ndim emb \<noteq> 1 then Inl AssertionError
        else if \<not> idx < fst dims then Inl IndexError
        else if \<not> broadcastable (shape emb) [snd dims] then Inl ValueError
        else
          (case check_scene_labels (prediction_type metadata) lbl of
             Inl e \<Rightarrow> Inl e
           | Inr u \<Rightarrow> Inr (idx + 1, labels @ [lbl], filename_timestamps)))"

text \<open>
  The same for an event or continuous split. The slice \<^verbatim>\<open>embedding_memmap[idx : idx + n]\<close>
  is clipped to the rows the array has; \<^verbatim>\<open>slug\<close> is the file's path without its suffix
  and is identified with the key \<open>f\<close>.
\<close>

definition fill_event ::
  "disk \<Rightarrow> nat \<times> nat \<Rightarrow> string \<Rightarrow> ndarray \<Rightarrow> json \<Rightarrow> fill_state \<Rightarrow> error + fill_state" where
  "fill_event d dims f emb lbl st =
     (case st of (idx, labels, filename_timestamps) \<Rightarrow>
        if ndim emb \<noteq> 2 then Inl AssertionError
        else
          (let n = shape emb ! 0;
               rows = min (idx + n) (fst dims) - min idx (fst dims)
           in if \<not> broadcastable (shape emb) [rows, snd dims] then Inl ValueError
              else
                (case py_len lbl of
                   Inl e \<Rightarrow> Inl e
                 | Inr len_lbl \<Rightarrow>
                     if n \<noteq> len_lbl then Inl AssertionError
                     else
                       (case py_iter lbl of
                          Inl e \<Rightarrow> Inl e
                        | Inr items \<Rightarrow>
                            (case timestamps_json d f of
                               None \<Rightarrow> Inl FileNotFoundError
                             | Some timestamps \<Rightarrow>
                                 (case py_iter timestamps of
                                    Inl e \<Rightarrow> Inl e
                                  | Inr ts \<Rightarrow>
                                      if n \<noteq> length ts then Inl AssertionError
                                      else if len_lbl \<noteq> length ts then Inl AssertionError
                                      else Inr (idx + n, labels @ items,
                                                filename_timestamps @ map (\<lambda>t. (f, t)) ts)))))))"

text \<open>
  One iteration of the second loop: \<^verbatim>\<open>np.load\<close> of the embedding, \<^verbatim>\<open>json.load\<close> of the
  labels (\<^verbatim>\<open>FileNotFoundError\<close> for a file that is not there), then the branch on
  \<^verbatim>\<open>embedding_type\<close>.
\<close>

definition fill_file ::
  "metadata \<Rightarrow> disk \<Rightarrow> nat \<times> nat \<Rightarrow> string \<Rightarrow> fill_state \<Rightarrow> error + fill_state" where
  "fill_file metadata d dims f st =
     (case embedding_npy d f of
        None \<Rightarrow> Inl FileNotFoundError
      | Some emb \<Rightarrow>
          (case target_labels_json d f of
             None \<Rightarrow> Inl FileNotFoundError
           | Some lbl \<Rightarrow>
               if embedding_type metadata = ''scene'' then fill_scene metadata dims emb lbl st
               else if embedding_type metadata = ''event''
                     \<or> embedding_type metadata = ''continuous'' then
                 fill_event d dims f emb lbl st
               else Inl ValueError))"

fun fill_pass ::
  "metadata \<Rightarrow> disk \<Rightarrow> nat \<times> nat \<Rightarrow> string list \<Rightarrow> fill_state \<Rightarrow> error + fill_state" where
  "fill_pass metadata d dims [] st = Inr st"
| "fill_pass metadata d dims (f # fs) st =
     (case fill_file metadata d dims f st of
        Inl e \<Rightarrow> Inl e
      | Inr st' \<Rightarrow> fill_pass metadata d dims fs st')"

subsection \<open>The split consolidator\<close>

text \<open>
  \<^verbatim>\<open>memmap_embeddings\<close> on the keys of \<^verbatim>\<open>split_data\<close>. \<open>shuffle\<close> is what \<^verbatim>\<open>prng.shuffle\<close>
  does to the list of files. The result is the split-level files written so far and the
  exception that ended the run, if any. After the first loop, \<^verbatim>\<open>json.dumps((nembeddings,
  ndim))\<close> raises \<^verbatim>\<open>UnboundLocalError\<close> when no file has bound \<^verbatim>\<open>ndim\<close>; \<^verbatim>\<open>np.memmap\<close> in
  mode \<^verbatim>\<open>w+\<close> raises \<^verbatim>\<open>ValueError\<close> for an array with no cell, since an empty file cannot be
  mapped (NumPy releases that still provide \<^verbatim>\<open>np.float\<close>).
\<close>

definition memmap_embeddings ::
  "(string list \<Rightarrow> string list) \<Rightarrow> metadata \<Rightarrow> disk \<Rightarrow> string list \<Rightarrow>
     split_files \<times> error option" where
  "memmap_embeddings shuffle metadata d split_data =
     (let embedding_files = shuffle split_data in
      case sizing_pass metadata d embedding_files (0, None) of
        Inl e \<Rightarrow> (no_files, Some e)
      | Inr (nembeddings, None) \<Rightarrow> (no_files, Some UnboundLocalError)
      | Inr (nembeddings, Some nd) \<Rightarrow>
          (let out1 = no_files\<lparr>embedding_dimensions_json := Some (nembeddings, nd)\<rparr> in
           if nembeddings * nd = 0 then (out1, Some ValueError)
           else
             (let out2 = out1\<lparr>embeddings_npy := Some (nembeddings, nd)\<rparr> in
              case fill_pass metadata d (nembeddings, nd) embedding_files (0, [], []) of
                Inl e \<Rightarrow> (out2, Some e)
              | Inr (idx, labels, filename_timestamps) \<Rightarrow>
                  (let out3 = out2\<lparr>target_labels_pkl := Some labels\<rparr> in
                   if embedding_type metadata = ''event''
                      \<or> embedding_type metadata = ''continuous'' then
                     (if length labels \<noteq> length filename_timestamps
                      then (out3, Some AssertionError)
                      else (out3\<lparr>filename_timestamps_json := Some filename_timestamps\<rparr>,
                            None))
                   else (out3, None)))))"

subsection \<open>Notions used to state the properties\<close>

text \<open>
  The interval the aligner stores for an event, and the intervals of a clip that cover a
  time \<open>t\<close>: those whose span \<open>[start, end + 0.0001)\<close> contains \<open>t\<close>. Two events with the
  same start, end and label are one interval, as they are one element of the tree.
\<close>

definition event_interval :: "event \<Rightarrow> interval" where
  "event_interval ev = (ev_start ev, ev_end ev + epsilon, ev_label ev)"

definition covering :: "event list \<Rightarrow> rat \<Rightarrow> interval set" where
  "covering evs t = {iv \<in> event_interval ` set evs. iv_begin iv \<le> t \<and> t < iv_end iv}"

text \<open>
  The stabilization rule in the words of the specification. \<open>previous\<close> is the label
  chosen at the preceding timestamp (\<open>None\<close> at the first timestamp of a clip), \<open>M\<close> the
  intervals covering the timestamp and \<open>c\<close> the label chosen for it: with no covering
  interval the previous choice, or the default label when there is none; with two or
  more the previous choice if it is the label of a covering interval, otherwise the
  default label; with exactly one, the label of that interval.
\<close>

definition stabilization_rule ::
  "pylabel \<Rightarrow> pylabel option \<Rightarrow> interval set \<Rightarrow> pylabel \<Rightarrow> bool" where
  "stabilization_rule default_label previous M c =
     (if card M = 0 then c = (case previous of None \<Rightarrow> default_label | Some p \<Rightarrow> p)
      else if card M \<ge> 2 then
        c = (case previous of
               None \<Rightarrow> default_label
             | Some p \<Rightarrow> if p \<in> (\<lambda>iv. Some (iv_data iv)) ` M then p else default_label)
      else c \<in> (\<lambda>iv. Some (iv_data iv)) ` M)"

text \<open>
  Linear interpolation of two rows as the specification writes it, component by
  component: \<open>(1 - alpha) * v + alpha * w\<close>.
\<close>

definition lerp :: "rat \<Rightarrow> rat list \<Rightarrow> rat list \<Rightarrow> rat list" where
  "lerp alpha v w = map (\<lambda>m. (1 - alpha) * v ! m + alpha * w ! m) [0..<length v]"

text \<open>
  The value the specification gives to a time \<open>t\<close> over sorted onsets and their rows: the
  first row up to the first onset, the last row after the last onset, and between two
  neighbouring onsets the interpolation with
  \<open>alpha = (t - onset\<^sub>k) / (onset\<^sub>k\<^sub>+\<^sub>1 - onset\<^sub>k)\<close>.
\<close>

definition interpolation_spec ::
  "rat list \<Rightarrow> rat list list \<Rightarrow> rat \<Rightarrow> rat list \<Rightarrow> bool" where
  "interpolation_spec onsets vals t v =
     (if t \<le> onsets ! 0 then v = vals ! 0
      else if last onsets < t then v = last vals
      else \<exists>k. Suc k < length onsets \<and> onsets ! k < t \<and> t \<le> onsets ! Suc k \<and>
             v = lerp ((t - onsets ! k) / (onsets ! Suc k - onsets ! k)) (vals ! k) (vals ! Suc k))"

text \<open>The value lists of a clip's events all have one length, so that they form an array.\<close>

definition same_length_values :: "event list \<Rightarrow> bool" where
  "same_length_values evs =
     list_all (\<lambda>event. length (ev_values event) = length (ev_values (hd evs))) evs"

text \<open>
  The rank \<^verbatim>\<open>memmap_embeddings\<close> asserts for an embedding type, the rows one file
  contributes to the mapped array (one for a scene embedding, its first extent
  otherwise), and its number of columns. \<open>rank_ok\<close>: the embedding file of \<open>f\<close> exists and
  has the asserted rank.
\<close>

definition required_rank :: "string \<Rightarrow> nat option" where
  "required_rank etype =
     (if etype = ''scene'' then Some 1
      else if etype = ''event'' \<or> etype = ''continuous'' then Some 2
      else None)"

definition is_scene :: "metadata \<Rightarrow> bool" where
  "is_scene metadata = (embedding_type metadata = ''scene'')"

definition file_rows :: "metadata \<Rightarrow> disk \<Rightarrow> string \<Rightarrow> nat" where
  "file_rows metadata d f =
     (case embedding_npy d f of
        None \<Rightarrow> 0
      | Some emb \<Rightarrow> if embedding_type metadata = ''scene'' then 1 else shape emb ! 0)"

definition file_columns :: "disk \<Rightarrow> string \<Rightarrow> nat" where
  "file_columns d f = (case embedding_npy d f of None \<Rightarrow> 0 | Some emb \<Rightarrow> last (shape emb))"

definition rank_ok :: "metadata \<Rightarrow> disk \<Rightarrow> string \<Rightarrow> bool" where
  "rank_ok metadata d f =
     (case embedding_npy d f of
        None \<Rightarrow> False
      | Some emb \<Rightarrow> required_rank (embedding_type metadata) = Some (length (shape emb)))"

text \<open>
  The artifacts of \<open>f\<close> are consistent for a split with \<open>ncols\<close> columns: the embedding and
  the label file exist; a scene embedding is a vector of \<open>ncols\<close> cells whose label list
  passes the check against the prediction type; an event or continuous embedding is a
  matrix with \<open>ncols\<close> columns whose label list and timestamp list have one entry per
  row.
\<close>

definition consistent_file :: "metadata \<Rightarrow> disk \<Rightarrow> nat \<Rightarrow> string \<Rightarrow> bool" where
  "consistent_file metadata d ncols f =
     (case (embedding_npy d f, target_labels_json d f) of
        (Some emb, Some lbl) \<Rightarrow>
          if embedding_type metadata = ''scene'' then
            shape emb = [ncols] \<and> check_scene_labels (prediction_type metadata) lbl = Inr ()
          else if embedding_type metadata = ''event''
                \<or> embedding_type metadata = ''continuous'' then
            length (shape emb) = 2 \<and> shape emb ! 1 = ncols \<and>
            py_len lbl = Inr (shape emb ! 0) \<and>
            (case timestamps_json d f of
               None \<Rightarrow> False
             | Some timestamps \<Rightarrow> py_len timestamps = Inr (shape emb ! 0))
          else False
      | _ \<Rightarrow> False)"

subsection \<open>Concrete inputs\<close>

text \<open>
  The clip of the specification's first scenario (one interval from 0 to 500 labelled
  dog), the two events of its second scenario (onset 0 with values [0, 0], onset 1000
  with values [1, 1]) and a clip with a single event.
\<close>

definition clipA :: "event list" where
  "clipA = [\<lparr>ev_start = 0, ev_end = 500, ev_label = ''dog'', ev_values = []\<rparr>]"

definition ramp :: "event list" where
  "ramp = [\<lparr>ev_start = 0, ev_end = 0, ev_label = [], ev_values = [0, 0]\<rparr>,
           \<lparr>ev_start = 1000, ev_end = 1000, ev_label = [], ev_values = [1, 1]\<rparr>]"

definition onset_event :: "event list" where
  "onset_event = [\<lparr>ev_start = 0, ev_end = 0, ev_label = ''a'', ev_values = [1, 2]\<rparr>]"

text \<open>Metadata of an event split, of a scene split and of a scene split whose prediction
  type is neither multiclass nor multilabel.\<close>

definition event_md :: metadata where
  "event_md = \<lparr>embedding_type = ''event'', prediction_type = ''multilabel''\<rparr>"

definition scene_md :: metadata where
  "scene_md = \<lparr>embedding_type = ''scene'', prediction_type = ''multilabel''\<rparr>"

definition regression_md :: metadata where
  "regression_md = \<lparr>embedding_type = ''scene'', prediction_type = ''regression''\<rparr>"

text \<open>
  Three files with embeddings of shape (10, 128), ten label entries and ten timestamps
  each; two scene vectors of 3 and 5 cells, the first stored as 64-bit floats; one scene
  vector stored as 64-bit floats, with two labels; one matrix.
\<close>

definition three_files :: disk where
  "three_files =
     (let emb = \<lparr>shape = [10, 128], dtype = Float32\<rparr>;
          lbl = JArray (replicate 10 (JArray [JString ''dog'']));
          ts = JArray (replicate 10 (JNumber 0))
      in \<lparr>embedding_npy = [''a'' \<mapsto> emb, ''b'' \<mapsto> emb, ''c'' \<mapsto> emb],
          target_labels_json = [''a'' \<mapsto> lbl, ''b'' \<mapsto> lbl, ''c'' \<mapsto> lbl],
          timestamps_json = [''a'' \<mapsto> ts, ''b'' \<mapsto> ts, ''c'' \<mapsto> ts]\<rparr>)"

definition mixed_files :: disk where
  "mixed_files =
     \<lparr>embedding_npy = [''a'' \<mapsto> \<lparr>shape = [3], dtype = Float64\<rparr>,
                        ''b'' \<mapsto> \<lparr>shape = [5], dtype = Float32\<rparr>],
      target_labels_json = [''a'' \<mapsto> JArray [JString ''x''], ''b'' \<mapsto> JArray [JString ''y'']],
      timestamps_json = Map.empty\<rparr>"

definition float64_file :: disk where
  "float64_file =
     \<lparr>embedding_npy = [''a'' \<mapsto> \<lparr>shape = [4], dtype = Float64\<rparr>],
      target_labels_json = [''a'' \<mapsto> JArray [JString ''x'', JString ''y'']],
      timestamps_json = Map.empty\<rparr>"

definition matrix_file :: disk where
  "matrix_file =
     \<lparr>embedding_npy = [''a'' \<mapsto> \<lparr>shape = [2, 3], dtype = Float32\<rparr>],
      target_labels_json = [''a'' \<mapsto> JArray [JString ''x'']],
      timestamps_json = Map.empty\<rparr>"

section \<open>Properties of the label aligner\<close>

subsection \<open>Auxiliary facts\<close>

text \<open>
  The loop \<open>map_result\<close> returns a list exactly when every iteration returns, and then its
  \<open>i\<close>-th element is the result of the \<open>i\<close>-th iteration. The tree built from a clip's
  events holds each stored interval once. On sorted onsets \<open>searchsorted\<close> is the index
  that separates the onsets below \<open>t\<close> from the others.
\<close>

lemma map_result_Inr_iff:
  "map_result f xs = Inr ys \<longleftrightarrow> list_all2 (\<lambda>x y. f x = Inr y) xs ys"
proof (induction xs arbitrary: ys)
  case Nil
  then show ?case by auto
next
  case (Cons x xs)
  show ?case
  proof (cases "f x")
    case (Inl e)
    then show ?thesis by (auto simp: list_all2_Cons1)
  next
    case (Inr y)
    then show ?thesis using Cons.IH
      by (cases "map_result f xs") (auto simp: list_all2_Cons1)
  qed
qed

lemma map_result_Inl:
  "map_result f xs = Inl e \<Longrightarrow> \<exists>x\<in>set xs. f x = Inl e"
  by (induction xs) (auto split: sum.splits)

lemma map_result_total:
  "(\<And>x. x \<in> set xs \<Longrightarrow> \<exists>y. f x = Inr y) \<Longrightarrow> \<exists>ys. map_result f xs = Inr ys"
  by (induction xs) (fastforce split: sum.splits)+

lemma map_result_length:
  "map_result f xs = Inr ys \<Longrightarrow> length ys = length xs"
  by (simp add: map_result_Inr_iff list_all2_lengthD)

lemma map_result_nth:
  "map_result f xs = Inr ys \<Longrightarrow> i < length xs \<Longrightarrow> f (xs ! i) = Inr (ys ! i)"
  by (simp add: map_result_Inr_iff list_all2_conv_all_nth)

lemma add_events_Inr:
  "add_events evs tree = Inr tree' \<Longrightarrow> distinct tree \<Longrightarrow>
     distinct tree' \<and> set tree' = set tree \<union> event_interval ` set evs"
proof (induction evs arbitrary: tree)
  case Nil
  then show ?case by simp
next
  case (Cons ev evs)
  then show ?case
    by (auto simp: addi_def event_interval_def split: sum.splits if_splits)
qed

lemma add_events_total:
  "(\<And>ev. ev \<in> set evs \<Longrightarrow> ev_start ev < ev_end ev + epsilon) \<Longrightarrow>
     \<exists>tree'. add_events evs tree = Inr tree'"
proof (induction evs arbitrary: tree)
  case Nil
  then show ?case by simp
next
  case (Cons ev evs)
  have "ev_start ev < ev_end ev + epsilon" using Cons.prems by simp
  then have "\<exists>tree1. addi (ev_start ev) (ev_end ev + epsilon) (ev_label ev) tree = Inr tree1"
    by (simp add: addi_def is_null_def iv_begin_def iv_end_def)
  then obtain tree1 where "addi (ev_start ev) (ev_end ev + epsilon) (ev_label ev) tree = Inr tree1"
    by blast
  then show ?case using Cons by simp
qed

lemma label_timestamps_raw:
  "label_timestamps tree False d lst ts =
     map (\<lambda>t. map (\<lambda>iv. Some (iv_data iv)) (tree_at tree t)) ts"
  by (induction ts arbitrary: lst) (auto simp: Let_def)

lemma tree_at_covering:
  assumes "add_events evs [] = Inr tree"
  shows "distinct (tree_at tree t)" and "set (tree_at tree t) = covering evs t"
proof -
  have d: "distinct tree" and s: "set tree = event_interval ` set evs"
    using add_events_Inr [OF assms] by simp_all
  show "distinct (tree_at tree t)" using d by (simp add: tree_at_def)
  show "set (tree_at tree t) = covering evs t"
    using s by (auto simp: tree_at_def covering_def)
qed

lemma onehot_rule:
  assumes "distinct ivs"
    and "lst = (case previous of None \<Rightarrow> None | Some p \<Rightarrow> p)"
    and "previous = Some None \<longrightarrow> d = None"
  shows "\<exists>c. onehot (map (\<lambda>iv. Some (iv_data iv)) ivs) lst d = [c] \<and>
             stabilization_rule d previous (set ivs) c \<and> (c = None \<longrightarrow> d = None)"
proof -
  have card: "card (set ivs) = length ivs" using assms(1) by (simp add: distinct_card)
  consider "length ivs = 0" | "length ivs = 1" | "length ivs \<ge> 2" by linarith
  then show ?thesis
  proof cases
    case 1
    then show ?thesis using assms(2,3)
      by (cases previous) (auto simp: onehot_def stabilization_rule_def)
  next
    case 2
    then obtain iv where "ivs = [iv]" by (cases ivs) auto
    then show ?thesis by (simp add: onehot_def stabilization_rule_def)
  next
    case 3
    then show ?thesis using assms(2,3) card
      by (cases previous) (auto simp: onehot_def stabilization_rule_def image_iff)
  qed
qed

lemma label_timestamps_onehot:
  assumes "\<And>t. distinct (tree_at tree t)"
    and "lst = (case previous of None \<Rightarrow> None | Some p \<Rightarrow> p)"
    and "previous = Some None \<longrightarrow> d = None"
  shows "\<exists>cs. length cs = length ts \<and>
           label_timestamps tree True d lst ts = map (\<lambda>c. [c]) cs \<and>
           (\<forall>j<length ts. stabilization_rule d (if j = 0 then previous else Some (cs ! (j - 1)))
                               (set (tree_at tree (ts ! j))) (cs ! j))"
  using assms(2,3)
proof (induction ts arbitrary: lst previous)
  case Nil
  then show ?case by simp
next
  case (Cons t ts)
  obtain c where c: "onehot (map (\<lambda>iv. Some (iv_data iv)) (tree_at tree t)) lst d = [c]"
    and rule: "stabilization_rule d previous (set (tree_at tree t)) c"
    and inv: "c = None \<longrightarrow> d = None"
    using onehot_rule [OF assms(1) Cons.prems] by blast
  have "c = (case Some c of None \<Rightarrow> None | Some p \<Rightarrow> p)" by simp
  moreover have "Some c = Some None \<longrightarrow> d = None" using inv by simp
  ultimately obtain cs where len: "length cs = length ts"
    and eq: "label_timestamps tree True d c ts = map (\<lambda>c. [c]) cs"
    and rules: "\<forall>j<length ts. stabilization_rule d (if j = 0 then Some c else Some (cs ! (j - 1)))
                               (set (tree_at tree (ts ! j))) (cs ! j)"
    using Cons.IH by blast
  have "length (c # cs) = length (t # ts)" using len by simp
  moreover have "label_timestamps tree True d lst (t # ts) = map (\<lambda>c. [c]) (c # cs)"
    using c eq by (simp add: Let_def)
  moreover have "\<forall>j<length (t # ts).
      stabilization_rule d (if j = 0 then previous else Some ((c # cs) ! (j - 1)))
        (set (tree_at tree ((t # ts) ! j))) ((c # cs) ! j)"
  proof (intro allI impI)
    fix j assume j: "j < length (t # ts)"
    show "stabilization_rule d (if j = 0 then previous else Some ((c # cs) ! (j - 1)))
        (set (tree_at tree ((t # ts) ! j))) ((c # cs) ! j)"
    proof (cases j)
      case 0
      then show ?thesis using rule by simp
    next
      case (Suc k)
      then have "k < length ts" using j by simp
      then have "stabilization_rule d (if k = 0 then Some c else Some (cs ! (k - 1)))
                               (set (tree_at tree (ts ! k))) (cs ! k)"
        using rules by blast
      then show ?thesis using Suc by (cases k) simp_all
    qed
  qed
  ultimately show ?case by blast
qed

lemma default_clip_eq:
  assumes "\<And>ev. ev \<in> set evs \<Longrightarrow> ev_start ev < ev_end ev + epsilon"
  shows "\<exists>tree. add_events evs [] = Inr tree \<and>
           default_clip oh d (evs, ts) = Inr (map Labels (label_timestamps tree oh d None ts))"
proof -
  obtain tree where "add_events evs [] = Inr tree"
    using add_events_total [of evs "[]"] assms by blast
  then show ?thesis by (simp add: default_clip_def)
qed

lemma default_clip_raw:
  assumes "\<And>ev. ev \<in> set evs \<Longrightarrow> ev_start ev < ev_end ev + epsilon"
  shows "\<exists>ys. default_clip False d (evs, ts) = Inr ys \<and> length ys = length ts \<and>
           (\<forall>j<length ts. \<exists>ls. ys ! j = Labels ls \<and>
               set ls = (\<lambda>iv. Some (iv_data iv)) ` covering evs (ts ! j))"
proof -
  obtain tree where tree: "add_events evs [] = Inr tree"
    and eq: "default_clip False d (evs, ts) = Inr (map Labels (label_timestamps tree False d None ts))"
    using default_clip_eq [OF assms] by blast
  have "set (map (\<lambda>iv. Some (iv_data iv)) (tree_at tree t)) =
          (\<lambda>iv. Some (iv_data iv)) ` covering evs t" for t
    using tree_at_covering(2) [OF tree] by simp
  then show ?thesis using eq by (simp add: label_timestamps_raw)
qed

lemma default_clip_onehot:
  assumes "\<And>ev. ev \<in> set evs \<Longrightarrow> ev_start ev < ev_end ev + epsilon"
  shows "\<exists>cs. length cs = length ts \<and>
           default_clip True d (evs, ts) = Inr (map (\<lambda>c. Labels [c]) cs) \<and>
           (\<forall>j<length ts. stabilization_rule d (if j = 0 then None else Some (cs ! (j - 1)))
                               (covering evs (ts ! j)) (cs ! j))"
proof -
  obtain tree where tree: "add_events evs [] = Inr tree"
    and eq: "default_clip True d (evs, ts) = Inr (map Labels (label_timestamps tree True d None ts))"
    using default_clip_eq [OF assms] by blast
  have dist: "\<And>t. distinct (tree_at tree t)" using tree_at_covering(1) [OF tree] .
  have "None = (case (None :: pylabel option) of None \<Rightarrow> None | Some p \<Rightarrow> p)" by simp
  moreover have "(None :: pylabel option) = Some None \<longrightarrow> d = None" by simp
  ultimately obtain cs where len: "length cs = length ts"
    and lt: "label_timestamps tree True d None ts = map (\<lambda>c. [c]) cs"
    and rules: "\<forall>j<length ts. stabilization_rule d (if j = 0 then None else Some (cs ! (j - 1)))
                               (set (tree_at tree (ts ! j))) (cs ! j)"
    using label_timestamps_onehot [OF dist, of None None d ts] by blast
  have eq': "default_clip True d (evs, ts) = Inr (map (\<lambda>c. Labels [c]) cs)"
    using eq lt by simp
  have rules': "\<forall>j<length ts. stabilization_rule d (if j = 0 then None else Some (cs ! (j - 1)))
                               (covering evs (ts ! j)) (cs ! j)"
    using rules tree_at_covering(2) [OF tree] by simp
  show ?thesis using len eq' rules' by blast
qed

lemma get_labels_default:
  assumes "length labels = length timestamps"
    and "\<And>clip. clip \<in> set (zip labels timestamps) \<Longrightarrow> \<exists>ys. default_clip oh d clip = Inr ys"
  shows "\<exists>out. get_labels_for_timestamps labels timestamps ''default'' oh d = Inr out \<and>
           length out = length timestamps \<and>
           (\<forall>i<length timestamps. default_clip oh d (labels ! i, timestamps ! i) = Inr (out ! i))"
proof -
  obtain out where out: "map_result (default_clip oh d) (zip labels timestamps) = Inr out"
    using map_result_total [of "zip labels timestamps" "default_clip oh d"] assms(2) by blast
  have len: "length out = length timestamps"
    using map_result_length [OF out] assms(1) by simp
  have "default_clip oh d (labels ! i, timestamps ! i) = Inr (out ! i)"
    if "i < length timestamps" for i
    using map_result_nth [OF out, of i] that assms(1) by simp
  then show ?thesis using out len assms(1)
    by (simp add: get_labels_for_timestamps_def)
qed

lemma covering_labels:
  "(\<lambda>iv. Some (iv_data iv)) ` covering evs t =
     {Some (ev_label ev) |ev. ev \<in> set evs \<and> ev_start ev \<le> t \<and> t < ev_end ev + epsilon}"
proof -
  have "(\<lambda>iv. Some (iv_data iv)) ` covering evs t =
          (\<lambda>ev. Some (ev_label ev)) ` {ev \<in> set evs. ev_start ev \<le> t \<and> t < ev_end ev + epsilon}"
    by (force simp: covering_def event_interval_def iv_begin_def iv_end_def iv_data_def)
  then show ?thesis by auto
qed

lemma vadd_scale_lerp:
  "length v = length w \<Longrightarrow> vadd (scale (1 - a) v) (scale a w) = lerp a v w"
  by (rule nth_equalityI) (simp_all add: vadd_def scale_def lerp_def)

lemma lerp_one: "length v = length w \<Longrightarrow> lerp 1 v w = w"
  by (rule nth_equalityI) (simp_all add: lerp_def)

lemma searchsorted_le: "searchsorted a v \<le> length a"
  by (simp add: searchsorted_def length_takeWhile_le)

lemma searchsorted_unique:
  assumes "k \<le> length a"
    and "\<And>i. i < k \<Longrightarrow> a ! i < v"
    and "\<And>i. k \<le> i \<Longrightarrow> i < length a \<Longrightarrow> v \<le> a ! i"
  shows "searchsorted a v = k"
proof (rule ccontr)
  let ?k' = "length (takeWhile (\<lambda>x. x < v) a)"
  assume "searchsorted a v \<noteq> k"
  then have "?k' \<noteq> k" by (simp add: searchsorted_def)
  then consider "?k' < k" | "k < ?k'" by linarith
  then show False
  proof cases
    case 1
    then have "?k' < length a" using assms(1) by simp
    then have "\<not> a ! ?k' < v" by (rule nth_length_takeWhile)
    then show False using assms(2) [OF 1] by simp
  next
    case 2
    then have "takeWhile (\<lambda>x. x < v) a ! k \<in> set (takeWhile (\<lambda>x. x < v) a)" by simp
    then have "takeWhile (\<lambda>x. x < v) a ! k < v" by (meson set_takeWhileD)
    moreover have "takeWhile (\<lambda>x. x < v) a ! k = a ! k" using 2 by (simp add: takeWhile_nth)
    moreover have "k < length a" using 2 length_takeWhile_le [of "\<lambda>x. x < v" a] by simp
    ultimately show False using assms(3) [of k] by simp
  qed
qed

lemma searchsorted_first:
  assumes "sorted a" "a \<noteq> []" "v \<le> a ! 0"
  shows "searchsorted a v = 0"
proof (rule searchsorted_unique)
  fix i assume "0 \<le> i" "i < length a"
  then have "a ! 0 \<le> a ! i" using assms(1) by (simp add: sorted_iff_nth_mono)
  then show "v \<le> a ! i" using assms(3) by simp
qed simp_all

lemma searchsorted_last:
  assumes "sorted a" "a \<noteq> []" "last a < v"
  shows "searchsorted a v = length a"
proof (rule searchsorted_unique)
  fix i assume i: "i < length a"
  then have "a ! i \<le> a ! (length a - 1)" using assms(1) by (simp add: sorted_iff_nth_mono)
  then show "a ! i < v" using assms(2,3) by (simp add: last_conv_nth)
qed simp_all

lemma searchsorted_between:
  assumes "sorted a" "Suc k < length a" "a ! k < v" "v \<le> a ! Suc k"
  shows "searchsorted a v = Suc k"
proof (rule searchsorted_unique)
  show "Suc k \<le> length a" using assms(2) by simp
next
  fix i assume "i < Suc k"
  then have "a ! i \<le> a ! k" using assms(1,2) by (simp add: sorted_iff_nth_mono)
  then show "a ! i < v" using assms(3) by simp
next
  fix i assume "Suc k \<le> i" "i < length a"
  then have "a ! Suc k \<le> a ! i" using assms(1) by (simp add: sorted_iff_nth_mono)
  then show "v \<le> a ! i" using assms(4) by simp
qed

lemma sorted_onsets: "sorted (map fst (sorted_pairs evs))"
  by (simp add: sorted_pairs_def)

lemma length_sorted_pairs: "length (sorted_pairs evs) = length evs"
  by (simp add: sorted_pairs_def)

lemma set_sorted_pairs:
  "set (sorted_pairs evs) = (\<lambda>event. (ev_start event, ev_values event)) ` set evs"
  by (simp add: sorted_pairs_def)

lemma searchsorted_below: "i < searchsorted a v \<Longrightarrow> a ! i < v"
proof -
  assume i: "i < searchsorted a v"
  then have "takeWhile (\<lambda>x. x < v) a ! i \<in> set (takeWhile (\<lambda>x. x < v) a)"
    by (simp add: searchsorted_def)
  then have "takeWhile (\<lambda>x. x < v) a ! i < v" by (meson set_takeWhileD)
  then show ?thesis using i by (simp add: searchsorted_def takeWhile_nth)
qed

lemma searchsorted_above: "searchsorted a v < length a \<Longrightarrow> v \<le> a ! searchsorted a v"
  using nth_length_takeWhile [of "\<lambda>x. x < v" a] by (simp add: searchsorted_def)

lemma values_same_length:
  assumes "same_length_values evs"
  shows "\<forall>r\<in>set (map snd (sorted_pairs evs)). length r = length (ev_values (hd evs))"
  using assms by (auto simp: same_length_values_def set_sorted_pairs list_all_iff)

lemma not_ragged:
  assumes "same_length_values evs"
  shows "\<not> ragged (map snd (sorted_pairs evs))"
proof (cases "sorted_pairs evs = []")
  case True
  then show ?thesis by (simp add: ragged_def)
next
  case False
  then have "map snd (sorted_pairs evs) \<noteq> []" by simp
  then have "hd (map snd (sorted_pairs evs)) \<in> set (map snd (sorted_pairs evs))"
    by (rule hd_in_set)
  then show ?thesis using values_same_length [OF assms]
    unfolding ragged_def list_all_iff by metis
qed

lemma continuous_clip_eq:
  "same_length_values evs \<Longrightarrow>
     continuous_clip (evs, ts) =
       map_result (interpolate (map fst (sorted_pairs evs)) (map snd (sorted_pairs evs))) ts"
  using not_ragged [of evs] by (simp add: continuous_clip_def Let_def)

lemma interpolate_spec:
  assumes "sorted onsets" "length onsets = length vals" "vals \<noteq> []"
    and "\<forall>r\<in>set vals. length r = n"
  shows "\<exists>v. interpolate onsets vals t = Inr (Vector v) \<and> interpolation_spec onsets vals t v"
proof -
  have ne: "onsets \<noteq> []" using assms(2,3) by auto
  consider "t \<le> onsets ! 0" | "\<not> t \<le> onsets ! 0" "last onsets < t"
    | "\<not> t \<le> onsets ! 0" "\<not> last onsets < t" by blast
  then show ?thesis
  proof cases
    case 1
    then have "searchsorted onsets t = 0" using searchsorted_first [OF assms(1) ne] by simp
    then show ?thesis using 1 assms(3) by (simp add: interpolate_def interpolation_spec_def)
  next
    case 2
    then have "searchsorted onsets t = length onsets" using searchsorted_last [OF assms(1) ne] by simp
    then show ?thesis using 2 assms(2,3) ne
      by (simp add: interpolate_def interpolation_spec_def)
  next
    case 3
    let ?u = "searchsorted onsets t"
    have pos: "?u \<noteq> 0"
    proof
      assume "?u = 0"
      then have "t \<le> onsets ! 0" using searchsorted_above [of onsets t] ne by simp
      then show False using 3(1) by simp
    qed
    have lt: "?u < length onsets"
    proof (rule ccontr)
      assume "\<not> ?u < length onsets"
      then have "?u = length onsets" using searchsorted_le [of onsets t] by simp
      then have "onsets ! (length onsets - 1) < t"
        using searchsorted_below [of "length onsets - 1" onsets t] ne by simp
      then show False using 3(2) ne by (simp add: last_conv_nth)
    qed
    obtain k where k: "?u = Suc k" using pos by (cases ?u) auto
    have below: "onsets ! k < t" using searchsorted_below [of k onsets t] k by simp
    have above: "t \<le> onsets ! Suc k" using searchsorted_above [OF lt] k by simp
    have len: "length (vals ! k) = length (vals ! Suc k)"
      using assms(2,4) lt k by (metis Suc_lessD nth_mem)
    have "interpolate onsets vals t =
            Inr (Vector (lerp ((t - onsets ! k) / (onsets ! Suc k - onsets ! k)) (vals ! k) (vals ! Suc k)))"
      using k lt assms(2) len by (simp add: interpolate_def Let_def vadd_scale_lerp)
    moreover have "interpolation_spec onsets vals t
            (lerp ((t - onsets ! k) / (onsets ! Suc k - onsets ! k)) (vals ! k) (vals ! Suc k))"
      using 3 below above lt k unfolding interpolation_spec_def by auto
    ultimately show ?thesis by blast
  qed
qed

lemma continuous_clip_spec:
  assumes "evs \<noteq> []" "same_length_values evs"
  shows "\<exists>ys. continuous_clip (evs, ts) = Inr ys \<and> length ys = length ts \<and>
           (\<forall>j<length ts. \<exists>v. ys ! j = Vector v \<and>
               interpolation_spec (map fst (sorted_pairs evs)) (map snd (sorted_pairs evs)) (ts ! j) v)"
proof -
  let ?onsets = "map fst (sorted_pairs evs)" and ?vals = "map snd (sorted_pairs evs)"
  have ne: "?vals \<noteq> []" using assms(1) length_sorted_pairs [of evs] by auto
  have spec: "\<exists>v. interpolate ?onsets ?vals t = Inr (Vector v) \<and> interpolation_spec ?onsets ?vals t v" for t
    using interpolate_spec [OF sorted_onsets _ ne values_same_length [OF assms(2)]] by simp
  then obtain ys where ys: "map_result (interpolate ?onsets ?vals) ts = Inr ys"
    using map_result_total [of ts "interpolate ?onsets ?vals"] by blast
  have "\<exists>v. ys ! j = Vector v \<and> interpolation_spec ?onsets ?vals (ts ! j) v" if "j < length ts" for j
    using map_result_nth [OF ys that] spec [of "ts ! j"] by auto
  then show ?thesis using ys map_result_length [OF ys] continuous_clip_eq [OF assms(2)] by simp
qed

lemma get_labels_continuous:
  assumes "length labels = length timestamps"
    and "\<And>clip. clip \<in> set (zip labels timestamps) \<Longrightarrow> \<exists>ys. continuous_clip clip = Inr ys"
  shows "\<exists>out. get_labels_for_timestamps labels timestamps ''continuous'' oh d = Inr out \<and>
           length out = length timestamps \<and>
           (\<forall>i<length timestamps. continuous_clip (labels ! i, timestamps ! i) = Inr (out ! i))"
proof -
  obtain out where out: "map_result continuous_clip (zip labels timestamps) = Inr out"
    using map_result_total [of "zip labels timestamps" continuous_clip] assms(2) by blast
  have len: "length out = length timestamps"
    using map_result_length [OF out] assms(1) by simp
  have "continuous_clip (labels ! i, timestamps ! i) = Inr (out ! i)"
    if "i < length timestamps" for i
    using map_result_nth [OF out, of i] that assms(1) by simp
  then show ?thesis using out len assms(1)
    by (simp add: get_labels_for_timestamps_def)
qed

lemma ramp_eval:
  "get_labels_for_timestamps [ramp] [[500]] ''continuous'' False None = Inr [[Vector [1 / 2, 1 / 2]]]"
  by (simp add: get_labels_for_timestamps_def continuous_clip_def sorted_pairs_def ramp_def
      ragged_def interpolate_def searchsorted_def vadd_def scale_def Let_def)

lemma map_result_fails:
  "x \<in> set xs \<Longrightarrow> f x = Inl e \<Longrightarrow> \<exists>e'. map_result f xs = Inl e'"
  by (induction xs) (auto split: sum.splits)

lemma interpolate_error: "interpolate onsets vals t = Inl e \<Longrightarrow> e = IndexError"
  by (auto simp: interpolate_def Let_def split: if_splits)

lemma continuous_clip_error:
  "continuous_clip clip = Inl e \<Longrightarrow> e = IndexError \<or> e = ValueError"
  by (auto simp: continuous_clip_def Let_def split: if_splits
      dest!: map_result_Inl interpolate_error)

lemma continuous_clip_no_events:
  "ts \<noteq> [] \<Longrightarrow> continuous_clip ([], ts) = Inl IndexError"
  by (cases ts)
    (simp_all add: continuous_clip_def sorted_pairs_def ragged_def interpolate_def
      searchsorted_def)

lemma get_labels_unknown_mode:
  assumes "mode \<noteq> ''default''" "mode \<noteq> ''smoothed''" "mode \<noteq> ''continuous''"
  shows "get_labels_for_timestamps labels timestamps mode oh d =
           (if length labels \<noteq> length timestamps then Inl AssertionError else Inl TypeError)"
  using assms by (simp add: get_labels_for_timestamps_def)

lemma smoothed_fails:
  assumes "length labels = length timestamps" "labels \<noteq> []"
  shows "get_labels_for_timestamps labels timestamps ''smoothed'' oh d = Inl UnboundLocalError"
proof -
  obtain l ls where l: "labels = l # ls" using assms(2) by (cases labels) auto
  then obtain t ts where t: "timestamps = t # ts" using assms(1) by (cases timestamps) auto
  show ?thesis using l t assms(1) by (simp add: get_labels_for_timestamps_def smoothed_clip_def)
qed

lemma distinct_onsets:
  "distinct (map ev_start evs) \<Longrightarrow> distinct (map fst (sorted_pairs evs))"
proof -
  assume d: "distinct (map ev_start evs)"
  have "mset (map fst (sorted_pairs evs)) = mset (map ev_start evs)"
    by (simp add: sorted_pairs_def image_mset.compositionality comp_def)
  then show ?thesis using d by (metis mset_eq_imp_distinct_iff)
qed

lemma interpolate_at_onset:
  assumes "sorted onsets" "distinct onsets" "length onsets = length vals"
    and "\<forall>r\<in>set vals. length r = n" and "k < length onsets"
  shows "interpolate onsets vals (onsets ! k) = Inr (Vector (vals ! k))"
proof (cases k)
  case 0
  have ne: "onsets \<noteq> []" using assms(5) by auto
  have "searchsorted onsets (onsets ! 0) = 0" using searchsorted_first [OF assms(1) ne] by simp
  then show ?thesis using 0 ne assms(3) by (auto simp: interpolate_def)
next
  case (Suc m)
  have strict: "sorted_wrt (<) onsets" using assms(1,2) by (simp add: strict_sorted_iff)
  have lt: "onsets ! m < onsets ! Suc m"
    using strict assms(5) Suc by (simp add: sorted_wrt_iff_nth_less)
  have u: "searchsorted onsets (onsets ! Suc m) = Suc m"
    using searchsorted_between [OF assms(1) _ lt] assms(5) Suc by simp
  have len: "length (vals ! m) = length (vals ! Suc m)"
    using assms(3,4,5) Suc by (metis Suc_lessD nth_mem)
  have alpha: "(onsets ! Suc m - onsets ! m) / (onsets ! Suc m - onsets ! m) = 1"
    using lt by simp
  show ?thesis using u Suc assms(3,5) len alpha
    by (simp add: interpolate_def Let_def vadd_scale_lerp lerp_one)
qed

lemma continuous_idempotent_at_onsets:
  assumes "length labels = length timestamps"
    and "\<forall>evs\<in>set labels. evs \<noteq> [] \<and> same_length_values evs"
    and "i < length timestamps" and "j < length (timestamps ! i)"
    and "distinct (map ev_start (labels ! i))"
    and "k < length (labels ! i)"
    and "timestamps ! i ! j = map fst (sorted_pairs (labels ! i)) ! k"
  shows "\<exists>out. get_labels_for_timestamps labels timestamps ''continuous'' to_onehot default_label = Inr out \<and>
           out ! i ! j = Vector (map snd (sorted_pairs (labels ! i)) ! k)"
proof -
  let ?evs = "labels ! i" and ?ts = "timestamps ! i"
  let ?onsets = "map fst (sorted_pairs ?evs)" and ?vals = "map snd (sorted_pairs ?evs)"
  have "\<exists>ys. continuous_clip clip = Inr ys" if "clip \<in> set (zip labels timestamps)" for clip
  proof -
    have "fst clip \<in> set labels"
      using that set_zip_leftD [of "fst clip" "snd clip" labels timestamps] by simp
    then show ?thesis using continuous_clip_spec [of "fst clip" "snd clip"] assms(2) by auto
  qed
  then obtain out where out: "get_labels_for_timestamps labels timestamps ''continuous'' to_onehot default_label = Inr out"
    and nth: "\<forall>i<length timestamps. continuous_clip (labels ! i, timestamps ! i) = Inr (out ! i)"
    using get_labels_continuous [OF assms(1), of to_onehot default_label] by blast
  have mem: "?evs \<in> set labels" using assms(1,3) by simp
  then have same: "same_length_values ?evs" using assms(2) by blast
  have clip: "map_result (interpolate ?onsets ?vals) ?ts = Inr (out ! i)"
    using nth assms(3) continuous_clip_eq [OF same, of ?ts] by simp
  have "interpolate ?onsets ?vals (?ts ! j) = Inr (Vector (?vals ! k))"
    using interpolate_at_onset [OF sorted_onsets distinct_onsets [OF assms(5)] _
        values_same_length [OF same], of k] assms(6,7)
    by (simp add: length_sorted_pairs)
  then have "out ! i ! j = Vector (?vals ! k)"
    using map_result_nth [OF clip assms(4)] by simp
  then show ?thesis using out by blast
qed

subsection \<open>The claims about the label aligner\<close>

text \<open>
  Claim C1. Under the default policy with \<^verbatim>\<open>to_onehot\<close> true, on label and timestamp
  lists of one length whose intervals are not null (\<open>start < end + 0.0001\<close>, which
  \<open>end \<ge> start\<close> implies; the tree raises on a null interval), the aligner returns one
  sequence per clip with one entry per timestamp, every entry is a single label, and the
  labels \<open>cs\<close> chosen along a clip obey the stabilization rule: the choice at timestamp
  \<open>j\<close> is made from the intervals covering it with the choice at \<open>j - 1\<close> as the previous
  choice, and with none at the first timestamp.
\<close>

theorem default_policy_onehot:
  assumes "length labels = length timestamps"
    and "\<forall>evs\<in>set labels. \<forall>ev\<in>set evs. ev_start ev < ev_end ev + epsilon"
  shows "\<exists>out. get_labels_for_timestamps labels timestamps ''default'' True default_label = Inr out \<and>
           length out = length timestamps \<and>
           (\<forall>i<length timestamps. \<exists>cs. length cs = length (timestamps ! i) \<and>
              out ! i = map (\<lambda>c. Labels [c]) cs \<and>
              (\<forall>j<length (timestamps ! i).
                  stabilization_rule default_label (if j = 0 then None else Some (cs ! (j - 1)))
                    (covering (labels ! i) (timestamps ! i ! j)) (cs ! j)))"
proof -
  have wf: "ev_start ev < ev_end ev + epsilon" if "evs \<in> set labels" "ev \<in> set evs" for evs ev
    using assms(2) that by blast
  have "\<exists>ys. default_clip True default_label clip = Inr ys"
    if "clip \<in> set (zip labels timestamps)" for clip
  proof -
    have "fst clip \<in> set labels"
      using that set_zip_leftD [of "fst clip" "snd clip" labels timestamps] by simp
    then show ?thesis using default_clip_onehot [of "fst clip" "snd clip" default_label] wf by auto
  qed
  then obtain out where out: "get_labels_for_timestamps labels timestamps ''default'' True default_label = Inr out"
    and len: "length out = length timestamps"
    and nth: "\<forall>i<length timestamps. default_clip True default_label (labels ! i, timestamps ! i) = Inr (out ! i)"
    using get_labels_default [OF assms(1), of True default_label] by blast
  have "\<exists>cs. length cs = length (timestamps ! i) \<and>
              out ! i = map (\<lambda>c. Labels [c]) cs \<and>
              (\<forall>j<length (timestamps ! i).
                  stabilization_rule default_label (if j = 0 then None else Some (cs ! (j - 1)))
                    (covering (labels ! i) (timestamps ! i ! j)) (cs ! j))"
    if i: "i < length timestamps" for i
  proof -
    have "labels ! i \<in> set labels" using i assms(1) by simp
    then show ?thesis
      using default_clip_onehot [of "labels ! i" "timestamps ! i" default_label] wf nth i by auto
  qed
  then show ?thesis using out len by blast
qed

text \<open>
  The first scenario of the specification with \<^verbatim>\<open>to_onehot\<close> true and the default label
  silence: the time 500 is still covered, and 750 falls back to the previous choice.
\<close>

theorem default_policy_onehot_witness:
  "length [clipA] = length [[0, 250, 500, 750 :: rat]] \<and>
   get_labels_for_timestamps [clipA] [[0, 250, 500, 750]] ''default'' True (Some ''silence'') =
     Inr [[Labels [Some ''dog''], Labels [Some ''dog''], Labels [Some ''dog''], Labels [Some ''dog'']]]"
proof -
  have h1: "length [clipA] = length [[0, 250, 500, 750 :: rat]]" by simp
  have h2: "\<forall>evs\<in>set [clipA]. \<forall>ev\<in>set evs. ev_start ev < ev_end ev + epsilon"
    by (simp add: clipA_def epsilon_def)
  obtain out where out: "get_labels_for_timestamps [clipA] [[0, 250, 500, 750]] ''default'' True
       (Some ''silence'') = Inr out"
    using default_policy_onehot [OF h1 h2, of "Some ''silence''"] by blast
  have "get_labels_for_timestamps [clipA] [[0, 250, 500, 750]] ''default'' True (Some ''silence'') =
     Inr [[Labels [Some ''dog''], Labels [Some ''dog''], Labels [Some ''dog''], Labels [Some ''dog'']]]"
    by (simp add: get_labels_for_timestamps_def default_clip_def clipA_def addi_def is_null_def
        iv_begin_def iv_end_def iv_data_def tree_at_def epsilon_def onehot_def Let_def)
  then show ?thesis by simp
qed

text \<open>
  Claim C2. Under the default policy with \<^verbatim>\<open>to_onehot\<close> false, on the same inputs, the
  aligner returns one entry per timestamp, and the labels of the entry at a time \<open>t\<close> are
  exactly the labels of the events whose widened span \<open>[start, end + 0.0001)\<close> contains
  \<open>t\<close>.
\<close>

theorem default_policy_raw_sets:
  assumes "length labels = length timestamps"
    and "\<forall>evs\<in>set labels. \<forall>ev\<in>set evs. ev_start ev < ev_end ev + epsilon"
  shows "\<exists>out. get_labels_for_timestamps labels timestamps ''default'' False default_label = Inr out \<and>
           length out = length timestamps \<and>
           (\<forall>i<length timestamps. length (out ! i) = length (timestamps ! i) \<and>
              (\<forall>j<length (timestamps ! i). \<exists>ls. out ! i ! j = Labels ls \<and>
                  set ls = {Some (ev_label ev) |ev. ev \<in> set (labels ! i) \<and>
                            ev_start ev \<le> timestamps ! i ! j \<and>
                            timestamps ! i ! j < ev_end ev + epsilon}))"
proof -
  have wf: "ev_start ev < ev_end ev + epsilon" if "evs \<in> set labels" "ev \<in> set evs" for evs ev
    using assms(2) that by blast
  have "\<exists>ys. default_clip False default_label clip = Inr ys"
    if "clip \<in> set (zip labels timestamps)" for clip
  proof -
    have "fst clip \<in> set labels"
      using that set_zip_leftD [of "fst clip" "snd clip" labels timestamps] by simp
    then show ?thesis using default_clip_raw [of "fst clip" default_label "snd clip"] wf by auto
  qed
  then obtain out where out: "get_labels_for_timestamps labels timestamps ''default'' False default_label = Inr out"
    and len: "length out = length timestamps"
    and nth: "\<forall>i<length timestamps. default_clip False default_label (labels ! i, timestamps ! i) = Inr (out ! i)"
    using get_labels_default [OF assms(1), of False default_label] by blast
  have "length (out ! i) = length (timestamps ! i) \<and>
              (\<forall>j<length (timestamps ! i). \<exists>ls. out ! i ! j = Labels ls \<and>
                  set ls = {Some (ev_label ev) |ev. ev \<in> set (labels ! i) \<and>
                            ev_start ev \<le> timestamps ! i ! j \<and>
                            timestamps ! i ! j < ev_end ev + epsilon})"
    if i: "i < length timestamps" for i
  proof -
    have "labels ! i \<in> set labels" using i assms(1) by simp
    then show ?thesis
      using default_clip_raw [of "labels ! i" default_label "timestamps ! i"] wf nth i
      by (auto simp: covering_labels)
  qed
  then show ?thesis using out len by blast
qed

text \<open>
  The first scenario of the specification: one interval from 0 to 500 labelled dog and
  the timestamps 0, 250, 500 and 750. The query at 500 still matches, 750 has no label.
\<close>

theorem default_policy_raw_sets_witness:
  "length [clipA] = length [[0, 250, 500, 750 :: rat]] \<and>
   get_labels_for_timestamps [clipA] [[0, 250, 500, 750]] ''default'' False None =
     Inr [[Labels [Some ''dog''], Labels [Some ''dog''], Labels [Some ''dog''], Labels []]]"
proof -
  have h1: "length [clipA] = length [[0, 250, 500, 750 :: rat]]" by simp
  have h2: "\<forall>evs\<in>set [clipA]. \<forall>ev\<in>set evs. ev_start ev < ev_end ev + epsilon"
    by (simp add: clipA_def epsilon_def)
  obtain out where out: "get_labels_for_timestamps [clipA] [[0, 250, 500, 750]] ''default'' False None = Inr out"
    using default_policy_raw_sets [OF h1 h2, of None] by blast
  have "get_labels_for_timestamps [clipA] [[0, 250, 500, 750]] ''default'' False None =
     Inr [[Labels [Some ''dog''], Labels [Some ''dog''], Labels [Some ''dog''], Labels []]]"
    by (simp add: get_labels_for_timestamps_def default_clip_def clipA_def addi_def is_null_def
        iv_begin_def iv_end_def iv_data_def tree_at_def epsilon_def)
  then show ?thesis by simp
qed

text \<open>
  Claim C3. Under the continuous policy, when every clip has at least one event and
  value lists of one length, the aligner returns one vector per timestamp, and the
  vector at a time \<open>t\<close> is the one \<open>interpolation_spec\<close> describes over the clip's onsets
  (sorted by the code) and their values: the first value up to the first onset, the last
  value after the last onset, the linear interpolation between the two bracketing onsets
  otherwise.
\<close>

theorem continuous_policy_interpolation:
  assumes "length labels = length timestamps"
    and "\<forall>evs\<in>set labels. evs \<noteq> [] \<and> same_length_values evs"
  shows "\<exists>out. get_labels_for_timestamps labels timestamps ''continuous'' to_onehot default_label = Inr out \<and>
           length out = length timestamps \<and>
           (\<forall>i<length timestamps. length (out ! i) = length (timestamps ! i) \<and>
              (\<forall>j<length (timestamps ! i). \<exists>v. out ! i ! j = Vector v \<and>
                  interpolation_spec (map fst (sorted_pairs (labels ! i)))
                    (map snd (sorted_pairs (labels ! i))) (timestamps ! i ! j) v))"
proof -
  have "\<exists>ys. continuous_clip clip = Inr ys" if "clip \<in> set (zip labels timestamps)" for clip
  proof -
    have "fst clip \<in> set labels"
      using that set_zip_leftD [of "fst clip" "snd clip" labels timestamps] by simp
    then show ?thesis using continuous_clip_spec [of "fst clip" "snd clip"] assms(2) by auto
  qed
  then obtain out where out: "get_labels_for_timestamps labels timestamps ''continuous'' to_onehot default_label = Inr out"
    and len: "length out = length timestamps"
    and nth: "\<forall>i<length timestamps. continuous_clip (labels ! i, timestamps ! i) = Inr (out ! i)"
    using get_labels_continuous [OF assms(1), of to_onehot default_label] by blast
  have "length (out ! i) = length (timestamps ! i) \<and>
              (\<forall>j<length (timestamps ! i). \<exists>v. out ! i ! j = Vector v \<and>
                  interpolation_spec (map fst (sorted_pairs (labels ! i)))
                    (map snd (sorted_pairs (labels ! i))) (timestamps ! i ! j) v)"
    if i: "i < length timestamps" for i
  proof -
    have "labels ! i \<in> set labels" using i assms(1) by simp
    then show ?thesis
      using continuous_clip_spec [of "labels ! i" "timestamps ! i"] assms(2) nth i by auto
  qed
  then show ?thesis using out len by blast
qed

text \<open>
  The second scenario of the specification: onsets 0 and 1000 with values [0, 0] and
  [1, 1], queried at 500, give [1/2, 1/2].
\<close>

theorem continuous_policy_interpolation_witness:
  "length [ramp] = length [[500 :: rat]] \<and> ramp \<noteq> [] \<and> same_length_values ramp \<and>
   get_labels_for_timestamps [ramp] [[500]] ''continuous'' False None = Inr [[Vector [1 / 2, 1 / 2]]] \<and>
   interpolation_spec (map fst (sorted_pairs ramp)) (map snd (sorted_pairs ramp)) 500 [1 / 2, 1 / 2]"
proof -
  have h1: "length [ramp] = length [[500 :: rat]]" by simp
  have h2: "\<forall>evs\<in>set [ramp]. evs \<noteq> [] \<and> same_length_values evs"
    by (simp add: ramp_def same_length_values_def)
  obtain out where out: "get_labels_for_timestamps [ramp] [[500]] ''continuous'' False None = Inr out"
    and spec: "\<forall>i<length [[500 :: rat]]. length (out ! i) = length ([[500 :: rat]] ! i) \<and>
              (\<forall>j<length ([[500 :: rat]] ! i). \<exists>v. out ! i ! j = Vector v \<and>
                  interpolation_spec (map fst (sorted_pairs ([ramp] ! i)))
                    (map snd (sorted_pairs ([ramp] ! i))) ([[500]] ! i ! j) v)"
    using continuous_policy_interpolation [OF h1 h2, of False None] by blast
  have eq: "out = [[Vector [1 / 2, 1 / 2]]]" using out ramp_eval by simp
  have "interpolation_spec (map fst (sorted_pairs ramp)) (map snd (sorted_pairs ramp)) 500 [1 / 2, 1 / 2]"
    using spec eq by simp
  then show ?thesis using h2 ramp_eval by simp
qed

text \<open>
  Claim C4. Under the continuous policy, when the onsets of a clip are pairwise
  different, a timestamp equal to the \<open>k\<close>-th onset is given exactly the \<open>k\<close>-th value.
  (At an onset other than the first the code computes \<open>alpha = 1\<close> on the interval that
  ends there, not \<open>alpha = 0\<close> on the one that starts there.) Under the smoothed policy the
  same call raises \<^verbatim>\<open>UnboundLocalError\<close> and returns no value.
\<close>

theorem onset_idempotence:
  assumes "length labels = length timestamps"
    and "\<forall>evs\<in>set labels. evs \<noteq> [] \<and> same_length_values evs"
    and "i < length timestamps" and "j < length (timestamps ! i)"
    and "distinct (map ev_start (labels ! i))"
    and "k < length (labels ! i)"
    and "timestamps ! i ! j = map fst (sorted_pairs (labels ! i)) ! k"
  shows "(\<exists>out. get_labels_for_timestamps labels timestamps ''continuous'' to_onehot default_label = Inr out \<and>
            out ! i ! j = Vector (map snd (sorted_pairs (labels ! i)) ! k)) \<and>
         get_labels_for_timestamps labels timestamps ''smoothed'' to_onehot default_label =
           Inl UnboundLocalError"
proof
  show "\<exists>out. get_labels_for_timestamps labels timestamps ''continuous'' to_onehot default_label = Inr out \<and>
            out ! i ! j = Vector (map snd (sorted_pairs (labels ! i)) ! k)"
    using assms by (rule continuous_idempotent_at_onsets)
  have "labels \<noteq> []" using assms(1,3) by auto
  then show "get_labels_for_timestamps labels timestamps ''smoothed'' to_onehot default_label =
           Inl UnboundLocalError"
    using assms(1) by (simp add: smoothed_fails)
qed

text \<open>
  A clip with one event at onset 0 with values [1, 2], queried at 0.
\<close>

theorem onset_idempotence_witness:
  "length [onset_event] = length [[0 :: rat]] \<and> distinct (map ev_start onset_event) \<and>
   [[0 :: rat]] ! 0 ! 0 = map fst (sorted_pairs onset_event) ! 0 \<and>
   get_labels_for_timestamps [onset_event] [[0]] ''continuous'' False None = Inr [[Vector [1, 2]]] \<and>
   get_labels_for_timestamps [onset_event] [[0]] ''smoothed'' False None = Inl UnboundLocalError"
proof -
  have h2: "\<forall>evs\<in>set [onset_event]. evs \<noteq> [] \<and> same_length_values evs"
    by (simp add: onset_event_def same_length_values_def)
  have h5: "distinct (map ev_start ([onset_event] ! 0))" by (simp add: onset_event_def)
  have h6: "0 < length ([onset_event] ! 0)" by (simp add: onset_event_def)
  have h7: "[[0 :: rat]] ! 0 ! 0 = map fst (sorted_pairs ([onset_event] ! 0)) ! 0"
    by (simp add: onset_event_def sorted_pairs_def)
  have smoothed:
    "get_labels_for_timestamps [onset_event] [[0]] ''smoothed'' False None = Inl UnboundLocalError"
    using onset_idempotence [of "[onset_event]" "[[0]]" 0 0 0 False None, OF _ h2 _ _ h5 h6 h7]
    by simp
  have "get_labels_for_timestamps [onset_event] [[0]] ''continuous'' False None = Inr [[Vector [1, 2]]]"
    by (simp add: get_labels_for_timestamps_def continuous_clip_def sorted_pairs_def onset_event_def
        ragged_def interpolate_def searchsorted_def)
  then show ?thesis using smoothed h5 h7 by simp
qed

text \<open>
  Claim C5. The smoothed and the continuous policy do not compute the same result: on
  the two events of the second scenario, queried at 500, the smoothed policy raises
  \<^verbatim>\<open>UnboundLocalError\<close> where the continuous policy returns [1/2, 1/2].
\<close>

theorem smoothed_unbound_values:
  "get_labels_for_timestamps [ramp] [[500]] ''smoothed'' False None = Inl UnboundLocalError \<and>
   get_labels_for_timestamps [ramp] [[500]] ''continuous'' False None = Inr [[Vector [1 / 2, 1 / 2]]]"
  using smoothed_fails [of "[ramp]" "[[500]]" False None] ramp_eval by simp

text \<open>
  Claim C9. For every policy name other than default, smoothed and continuous the
  aligner raises before it produces any output: \<^verbatim>\<open>TypeError\<close> from \<^verbatim>\<open>raise "nope"\<close>, or
  \<^verbatim>\<open>AssertionError\<close> from the length check that precedes the dispatch when the label and
  timestamp lists differ in length.
\<close>

theorem unsupported_policy_raises:
  assumes "mode \<notin> {''default'', ''smoothed'', ''continuous''}"
  shows "get_labels_for_timestamps labels timestamps mode to_onehot default_label =
           (if length labels \<noteq> length timestamps then Inl AssertionError else Inl TypeError)"
  using assms by (simp add: get_labels_unknown_mode)

text \<open>
  The policy name of the branch that the source leaves commented out.
\<close>

theorem unsupported_policy_raises_witness:
  "''probabilities'' \<notin> {''default'', ''smoothed'', ''continuous''} \<and>
   get_labels_for_timestamps [clipA] [[0, 250]] ''probabilities'' False None = Inl TypeError"
  using unsupported_policy_raises [of "''probabilities''" "[clipA]" "[[0, 250]]" False None]
  by simp

text \<open>
  Claim C10, amended. Under the continuous policy a clip with no event and at least one
  timestamp makes the aligner fail: the clip itself raises \<^verbatim>\<open>IndexError\<close> at \<^verbatim>\<open>values[0]\<close>,
  and the call ends with that error or with the \<^verbatim>\<open>ValueError\<close> of an earlier clip whose
  value lists are ragged.
\<close>

theorem continuous_no_events_fails:
  assumes "length labels = length timestamps"
    and "i < length labels" and "labels ! i = []" and "timestamps ! i \<noteq> []"
  shows "get_labels_for_timestamps labels timestamps ''continuous'' to_onehot default_label = Inl IndexError \<or>
         get_labels_for_timestamps labels timestamps ''continuous'' to_onehot default_label = Inl ValueError"
proof -
  have mem: "(labels ! i, timestamps ! i) \<in> set (zip labels timestamps)"
    using assms(1,2) by (metis length_zip min.idem nth_mem nth_zip)
  have "continuous_clip (labels ! i, timestamps ! i) = Inl IndexError"
    using continuous_clip_no_events assms(3,4) by simp
  then obtain e where e: "map_result continuous_clip (zip labels timestamps) = Inl e"
    using map_result_fails [OF mem] by blast
  then obtain clip where "continuous_clip clip = Inl e"
    using map_result_Inl by blast
  then have "e = IndexError \<or> e = ValueError" by (rule continuous_clip_error)
  then show ?thesis using e assms(1) by (auto simp: get_labels_for_timestamps_def)
qed

text \<open>
  One clip with no event and one timestamp.
\<close>

theorem continuous_no_events_fails_witness:
  "length [[] :: event list] = length [[0 :: rat]] \<and> (0 :: nat) < length [[] :: event list] \<and>
   get_labels_for_timestamps [[]] [[0]] ''continuous'' False None = Inl IndexError"
proof -
  have "get_labels_for_timestamps [[]] [[0]] ''continuous'' False None = Inl IndexError \<or>
        get_labels_for_timestamps [[]] [[0]] ''continuous'' False None = Inl ValueError"
    using continuous_no_events_fails [of "[[]]" "[[0]]" 0 False None] by simp
  moreover have "get_labels_for_timestamps [[]] [[0]] ''continuous'' False None \<noteq> Inl ValueError"
    by (simp add: get_labels_for_timestamps_def continuous_clip_def sorted_pairs_def ragged_def
        interpolate_def searchsorted_def)
  ultimately show ?thesis by simp
qed

text \<open>
  The claim as stated fails for a clip that has no event and no timestamp: the timestamp
  loop is not entered, \<^verbatim>\<open>values[0]\<close> is never read, and the aligner returns the empty
  sequence for the clip.
\<close>

theorem continuous_no_events_no_timestamps:
  "get_labels_for_timestamps [[]] [[]] ''continuous'' False None = Inr [[]]"
  by (simp add: get_labels_for_timestamps_def continuous_clip_def sorted_pairs_def ragged_def)

section \<open>Properties of the split consolidator\<close>

subsection \<open>Auxiliary facts\<close>

text \<open>
  Pass 1 succeeds exactly on files that exist with the asserted rank, and then adds up
  their rows and keeps the columns of the last file. A pass 2 that succeeds has advanced
  \<open>idx\<close> and extended the label list by the rows of every file, and the (file, timestamp)
  list as well unless the split is a scene split.
\<close>

lemma size_file_ok:
  assumes "rank_ok metadata d f"
  shows "size_file metadata d f (n, nd) = Inr (n + file_rows metadata d f, Some (file_columns d f))"
proof -
  obtain emb where emb: "embedding_npy d f = Some emb"
    and rank: "required_rank (embedding_type metadata) = Some (length (shape emb))"
    using assms by (auto simp: rank_ok_def split: option.splits)
  show ?thesis
  proof (cases "embedding_type metadata = ''scene''")
    case True
    then have "length (shape emb) = 1" using rank by (simp add: required_rank_def)
    then obtain c where "shape emb = [c]" by (cases "shape emb") auto
    then show ?thesis using emb True
      by (simp add: size_file_def ndim_def astype_def file_rows_def file_columns_def)
  next
    case False
    then have ev: "embedding_type metadata = ''event'' \<or> embedding_type metadata = ''continuous''"
      and "length (shape emb) = 2"
      using rank by (auto simp: required_rank_def split: if_splits)
    then obtain r c where "shape emb = [r, c]"
      by (cases "shape emb"; cases "tl (shape emb)") auto
    then show ?thesis using emb False ev
      by (auto simp: size_file_def ndim_def astype_def file_rows_def file_columns_def)
  qed
qed

lemma size_file_bad:
  assumes "\<not> rank_ok metadata d f" "required_rank (embedding_type metadata) = Some r"
  shows "size_file metadata d f acc = Inl AssertionError"
  using assms
  by (auto simp: rank_ok_def size_file_def required_rank_def ndim_def astype_def Let_def
      split: option.splits if_splits)

lemma size_file_Inr:
  assumes "size_file metadata d f acc = Inr acc'"
  shows "rank_ok metadata d f"
  using assms
  by (auto simp: rank_ok_def size_file_def required_rank_def ndim_def astype_def Let_def
      split: option.splits if_splits)

lemma sizing_pass_ok:
  assumes "\<forall>f\<in>set fs. rank_ok metadata d f"
  shows "sizing_pass metadata d fs (n, nd) =
           Inr (n + sum_list (map (file_rows metadata d) fs),
                if fs = [] then nd else Some (file_columns d (last fs)))"
  using assms
proof (induction fs arbitrary: n nd)
  case Nil
  then show ?case by simp
next
  case (Cons f fs)
  then show ?case by (simp add: size_file_ok add.assoc)
qed

lemma sizing_pass_Inr:
  assumes "sizing_pass metadata d fs acc = Inr acc'"
  shows "\<forall>f\<in>set fs. rank_ok metadata d f"
  using assms
proof (induction fs arbitrary: acc)
  case Nil
  then show ?case by simp
next
  case (Cons f fs)
  then show ?case by (auto split: sum.splits dest: size_file_Inr)
qed

lemma sizing_pass_bad:
  assumes "\<exists>f\<in>set fs. \<not> rank_ok metadata d f"
    and "required_rank (embedding_type metadata) = Some r"
  shows "sizing_pass metadata d fs acc = Inl AssertionError"
  using assms(1)
proof (induction fs arbitrary: acc)
  case Nil
  then show ?case by simp
next
  case (Cons f fs)
  show ?case
  proof (cases "rank_ok metadata d f")
    case True
    then have "\<exists>f\<in>set fs. \<not> rank_ok metadata d f" using Cons.prems by auto
    then show ?thesis using Cons.IH size_file_ok [OF True, of "fst acc" "snd acc"] by simp
  next
    case False
    then show ?thesis using size_file_bad [OF False assms(2)] by simp
  qed
qed

lemma py_len_iter: "py_len j = Inr n \<Longrightarrow> \<exists>xs. py_iter j = Inr xs \<and> length xs = n"
  by (auto simp: py_len_def split: sum.splits)

lemma fill_file_Inr:
  assumes "fill_file metadata d dims f (idx, labels, fts) = Inr (idx', labels', fts')"
  shows "idx' = idx + file_rows metadata d f \<and>
         length labels' = length labels + file_rows metadata d f \<and>
         length fts' = length fts + (if is_scene metadata then 0 else file_rows metadata d f)"
proof -
  obtain emb lbl where emb: "embedding_npy d f = Some emb" and lbl: "target_labels_json d f = Some lbl"
    using assms by (auto simp: fill_file_def split: option.splits)
  show ?thesis
  proof (cases "embedding_type metadata = ''scene''")
    case True
    then have "fill_scene metadata dims emb lbl (idx, labels, fts) = Inr (idx', labels', fts')"
      using assms emb lbl by (simp add: fill_file_def)
    then show ?thesis using True emb
      by (auto simp: fill_scene_def file_rows_def is_scene_def split: if_splits sum.splits)
  next
    case False
    then have "fill_event d dims f emb lbl (idx, labels, fts) = Inr (idx', labels', fts')"
      using assms emb lbl by (simp add: fill_file_def split: if_splits)
    then show ?thesis using False emb
      by (auto simp: fill_event_def file_rows_def is_scene_def Let_def py_len_def
          split: if_splits sum.splits option.splits)
  qed
qed

lemma fill_pass_Inr:
  assumes "fill_pass metadata d dims fs (idx, labels, fts) = Inr (idx', labels', fts')"
  shows "idx' = idx + sum_list (map (file_rows metadata d) fs) \<and>
         length labels' = length labels + sum_list (map (file_rows metadata d) fs) \<and>
         length fts' = length fts +
           (if is_scene metadata then 0 else sum_list (map (file_rows metadata d) fs))"
  using assms
proof (induction fs arbitrary: idx labels fts)
  case Nil
  then show ?case by simp
next
  case (Cons f fs)
  obtain i1 l1 t1 where step: "fill_file metadata d dims f (idx, labels, fts) = Inr (i1, l1, t1)"
    and rest: "fill_pass metadata d dims fs (i1, l1, t1) = Inr (idx', labels', fts')"
    using Cons.prems by (auto split: sum.splits)
  show ?case using fill_file_Inr [OF step] Cons.IH [OF rest] by simp
qed

lemma fill_file_ok:
  assumes "consistent_file metadata d ncols f"
    and "idx + file_rows metadata d f \<le> nrows"
  shows "\<exists>st. fill_file metadata d (nrows, ncols) f (idx, labels, fts) = Inr st"
proof -
  obtain emb lbl where emb: "embedding_npy d f = Some emb" and lbl: "target_labels_json d f = Some lbl"
    using assms(1) by (auto simp: consistent_file_def split: option.splits)
  show ?thesis
  proof (cases "embedding_type metadata = ''scene''")
    case True
    then have "shape emb = [ncols]" "check_scene_labels (prediction_type metadata) lbl = Inr ()"
      using assms(1) emb lbl by (simp_all add: consistent_file_def)
    moreover have "idx < nrows" using assms(2) True emb by (simp add: file_rows_def)
    ultimately show ?thesis using True emb lbl
      by (simp add: fill_file_def fill_scene_def ndim_def broadcastable_def)
  next
    case False
    then have ev: "embedding_type metadata = ''event'' \<or> embedding_type metadata = ''continuous''"
      using assms(1) emb lbl by (auto simp: consistent_file_def split: if_splits)
    have len: "length (shape emb) = 2" and col: "shape emb ! 1 = ncols"
      and ll: "py_len lbl = Inr (shape emb ! 0)"
      using assms(1) emb lbl False ev by (auto simp: consistent_file_def)
    obtain tsj where tsj: "timestamps_json d f = Some tsj" and lt: "py_len tsj = Inr (shape emb ! 0)"
      using assms(1) emb lbl False ev by (auto simp: consistent_file_def split: option.splits)
    obtain r c where sh: "shape emb = [r, c]"
      using len by (cases "shape emb"; cases "tl (shape emb)") auto
    obtain items where items: "py_iter lbl = Inr items" "length items = r"
      using py_len_iter [OF ll] sh by auto
    obtain ts where ts: "py_iter tsj = Inr ts" "length ts = r"
      using py_len_iter [OF lt] sh by auto
    have "idx + r \<le> nrows" using assms(2) False emb sh by (simp add: file_rows_def)
    then have rows: "min (idx + r) nrows - min idx nrows = r" by simp
    show ?thesis using False ev emb lbl sh col ll tsj items ts rows
      by (simp add: fill_file_def fill_event_def ndim_def broadcastable_def Let_def)
  qed
qed

lemma fill_pass_ok:
  assumes "\<forall>f\<in>set fs. consistent_file metadata d ncols f"
    and "idx + sum_list (map (file_rows metadata d) fs) \<le> nrows"
  shows "\<exists>st. fill_pass metadata d (nrows, ncols) fs (idx, labels, fts) = Inr st"
  using assms
proof (induction fs arbitrary: idx labels fts)
  case Nil
  then show ?case by simp
next
  case (Cons f fs)
  have "idx + file_rows metadata d f \<le> nrows" using Cons.prems(2) by simp
  then obtain st where st: "fill_file metadata d (nrows, ncols) f (idx, labels, fts) = Inr st"
    using fill_file_ok [of metadata d ncols f idx nrows labels fts] Cons.prems(1) by auto
  obtain i1 l1 t1 where st_eq: "st = (i1, l1, t1)" by (cases st) auto
  have "i1 = idx + file_rows metadata d f" using fill_file_Inr st st_eq by blast
  then have "i1 + sum_list (map (file_rows metadata d) fs) \<le> nrows" using Cons.prems(2) by simp
  then obtain st' where "fill_pass metadata d (nrows, ncols) fs (i1, l1, t1) = Inr st'"
    using Cons.IH [of i1 l1 t1] Cons.prems(1) by auto
  then have "fill_pass metadata d (nrows, ncols) (f # fs) (idx, labels, fts) = Inr st'"
    using st st_eq by simp
  then show ?case by blast
qed

lemma last_of_two: "length xs = 2 \<Longrightarrow> last xs = xs ! 1"
  by (cases xs; cases "tl xs") auto

lemma consistent_rank_ok:
  assumes "consistent_file metadata d ncols f"
  shows "rank_ok metadata d f \<and> file_columns d f = ncols"
  using assms
  by (auto simp: consistent_file_def rank_ok_def file_columns_def required_rank_def
      last_of_two split: option.splits if_splits)

lemma shuffle_facts:
  assumes "mset (shuffle xs) = mset xs"
  shows "set (shuffle xs) = set xs"
    and "sum_list (map g (shuffle xs)) = sum_list (map (g :: string \<Rightarrow> nat) xs)"
    and "shuffle xs = [] \<longleftrightarrow> xs = []"
proof -
  show "set (shuffle xs) = set xs" using assms by (rule mset_eq_setD)
  have "mset (map g (shuffle xs)) = mset (map g xs)" using assms by simp
  then show "sum_list (map g (shuffle xs)) = sum_list (map g xs)"
    by (metis sum_mset_sum_list)
  show "shuffle xs = [] \<longleftrightarrow> xs = []" using assms by (metis mset_zero_iff)
qed

lemma memmap_success:
  assumes "memmap_embeddings shuffle metadata d split_data = (out, None)"
  shows "embedding_dimensions_json out =
           Some (sum_list (map (file_rows metadata d) (shuffle split_data)),
                 file_columns d (last (shuffle split_data))) \<and>
         (\<exists>labels. target_labels_pkl out = Some labels \<and>
            length labels = sum_list (map (file_rows metadata d) (shuffle split_data))) \<and>
         (\<not> is_scene metadata \<longrightarrow>
            (\<exists>fts. filename_timestamps_json out = Some fts \<and>
               length fts = sum_list (map (file_rows metadata d) (shuffle split_data))))"
proof -
  let ?fs = "shuffle split_data"
  let ?n = "sum_list (map (file_rows metadata d) ?fs)"
  obtain n nd where size: "sizing_pass metadata d ?fs (0, None) = Inr (n, Some nd)"
    using assms
    by (auto simp: memmap_embeddings_def Let_def split: sum.splits option.splits prod.splits)
  have ok: "\<forall>f\<in>set ?fs. rank_ok metadata d f" using sizing_pass_Inr [OF size] .
  have n: "n = ?n" and nd: "?fs \<noteq> []" "nd = file_columns d (last ?fs)"
    using size sizing_pass_ok [OF ok, of 0 None] by (auto split: if_splits)
  have nz: "n * nd \<noteq> 0"
    using assms size
    by (auto simp: memmap_embeddings_def Let_def split: sum.splits option.splits prod.splits if_splits)
  obtain idx labels fts where fill: "fill_pass metadata d (n, nd) ?fs (0, [], []) = Inr (idx, labels, fts)"
    using assms size nz
    by (auto simp: memmap_embeddings_def Let_def split: sum.splits option.splits prod.splits if_splits)
  have lens: "length labels = ?n"
    "length fts = (if is_scene metadata then 0 else ?n)"
    using fill_pass_Inr [OF fill] by simp_all
  show ?thesis
  proof (cases "embedding_type metadata = ''event'' \<or> embedding_type metadata = ''continuous''")
    case True
    then have "\<not> is_scene metadata" by (auto simp: is_scene_def)
    moreover have "out = no_files\<lparr>embedding_dimensions_json := Some (n, nd),
        embeddings_npy := Some (n, nd), target_labels_pkl := Some labels,
        filename_timestamps_json := Some fts\<rparr>"
      using assms size nz fill True
      by (auto simp: memmap_embeddings_def Let_def split: if_splits)
    ultimately show ?thesis using lens n nd by simp
  next
    case False
    then have "is_scene metadata"
      using ok nd(1) by (cases ?fs) (auto simp: rank_ok_def required_rank_def is_scene_def
          split: option.splits if_splits)
    moreover have "out = no_files\<lparr>embedding_dimensions_json := Some (n, nd),
        embeddings_npy := Some (n, nd), target_labels_pkl := Some labels\<rparr>"
      using assms size nz fill False
      by (auto simp: memmap_embeddings_def Let_def split: if_splits)
    ultimately show ?thesis using lens n nd by simp
  qed
qed

lemma memmap_total:
  assumes "fs = shuffle split_data"
    and "fs \<noteq> []"
    and "\<forall>f\<in>set fs. consistent_file metadata d ncols f"
    and "0 < ncols" and "0 < sum_list (map (file_rows metadata d) fs)"
  shows "snd (memmap_embeddings shuffle metadata d split_data) = None"
proof -
  let ?n = "sum_list (map (file_rows metadata d) fs)"
  have ok: "\<forall>f\<in>set fs. rank_ok metadata d f" using assms(3) consistent_rank_ok by blast
  have "file_columns d (last fs) = ncols"
    using assms(2,3) consistent_rank_ok [of metadata d ncols "last fs"] by simp
  then have size: "sizing_pass metadata d fs (0, None) = Inr (?n, Some ncols)"
    using sizing_pass_ok [OF ok, of 0 None] assms(2) by simp
  obtain st where st: "fill_pass metadata d (?n, ncols) fs (0, [], []) = Inr st"
    using fill_pass_ok [OF assms(3), of 0 ?n "[]" "[]"] by auto
  obtain idx labels fts where st_eq: "st = (idx, labels, fts)" by (cases st) auto
  have lens: "length labels = ?n" "length fts = (if is_scene metadata then 0 else ?n)"
    using fill_pass_Inr [of metadata d "(?n, ncols)" fs 0 "[]" "[]" idx labels fts] st st_eq
    by simp_all
  have "is_scene metadata \<or> embedding_type metadata = ''event''
        \<or> embedding_type metadata = ''continuous''"
    using ok assms(2) by (cases fs) (auto simp: rank_ok_def required_rank_def is_scene_def
          split: option.splits if_splits)
  moreover have "?n * ncols \<noteq> 0" using assms(4,5)
    by (metis nat_0_less_mult_iff less_not_refl)
  ultimately show ?thesis using size st st_eq lens assms(1)
    by (auto simp: memmap_embeddings_def Let_def is_scene_def)
qed

lemma three_files_consistent:
  "\<forall>f\<in>set [''a'', ''b'', ''c'']. consistent_file event_md three_files 128 f"
  by (simp add: consistent_file_def three_files_def event_md_def py_len_def Let_def)

lemma three_files_rows:
  "sum_list (map (file_rows event_md three_files) [''a'', ''b'', ''c'']) = 30"
  by (simp add: file_rows_def three_files_def event_md_def Let_def)

lemma check_scene_labels_multiclass:
  "check_scene_labels ''multiclass'' lbl = Inr () \<longleftrightarrow> py_len lbl = Inr 1"
  by (auto simp: check_scene_labels_def split: sum.splits)

lemma check_scene_labels_multilabel:
  "check_scene_labels ''multilabel'' (JArray xs) = Inr ()"
  by (simp add: check_scene_labels_def)

lemma check_scene_labels_other:
  "ptype \<noteq> ''multiclass'' \<Longrightarrow> ptype \<noteq> ''multilabel'' \<Longrightarrow> check_scene_labels ptype lbl = Inr ()"
  by (simp add: check_scene_labels_def)

subsection \<open>The claims about the split consolidator\<close>

text \<open>
  Claim C6. Let the shuffle permute the files. Whenever the consolidator completes, the
  dimension file holds \<open>N\<close>, the sum over the files of their rows (1 per file for a
  scene split, the first extent of the embedding otherwise), the label list has length
  \<open>N\<close> and, unless the split is a scene split, so has the (file, timestamp) list. And
  it does complete on a non-empty split of consistent files with a positive number of
  rows and of columns.
\<close>

theorem consolidation_counts:
  assumes "mset (shuffle split_data) = mset split_data"
  shows "(memmap_embeddings shuffle metadata d split_data = (out, None) \<longrightarrow>
            embedding_dimensions_json out =
              Some (sum_list (map (file_rows metadata d) split_data),
                    file_columns d (last (shuffle split_data))) \<and>
            (\<exists>labels. target_labels_pkl out = Some labels \<and>
               length labels = sum_list (map (file_rows metadata d) split_data)) \<and>
            (\<not> is_scene metadata \<longrightarrow>
               (\<exists>fts. filename_timestamps_json out = Some fts \<and>
                  length fts = sum_list (map (file_rows metadata d) split_data)))) \<and>
         (split_data \<noteq> [] \<and> (\<forall>f\<in>set split_data. consistent_file metadata d ncols f) \<and>
          0 < ncols \<and> 0 < sum_list (map (file_rows metadata d) split_data) \<longrightarrow>
            snd (memmap_embeddings shuffle metadata d split_data) = None)"
proof (intro conjI impI)
  assume "memmap_embeddings shuffle metadata d split_data = (out, None)"
  note s = memmap_success [OF this] shuffle_facts(2) [of shuffle split_data "file_rows metadata d", OF assms]
  show "embedding_dimensions_json out =
              Some (sum_list (map (file_rows metadata d) split_data),
                    file_columns d (last (shuffle split_data)))"
    using s by simp
  show "\<exists>labels. target_labels_pkl out = Some labels \<and>
               length labels = sum_list (map (file_rows metadata d) split_data)"
    using s by simp
  show "\<exists>fts. filename_timestamps_json out = Some fts \<and>
                  length fts = sum_list (map (file_rows metadata d) split_data)"
    if "\<not> is_scene metadata"
    using s that by simp
next
  assume pre: "split_data \<noteq> [] \<and> (\<forall>f\<in>set split_data. consistent_file metadata d ncols f) \<and>
          0 < ncols \<and> 0 < sum_list (map (file_rows metadata d) split_data)"
  show "snd (memmap_embeddings shuffle metadata d split_data) = None"
  proof (rule memmap_total [OF refl])
    show "shuffle split_data \<noteq> []" using pre shuffle_facts(3) [of shuffle split_data, OF assms] by simp
    show "\<forall>f\<in>set (shuffle split_data). consistent_file metadata d ncols f"
      using pre shuffle_facts(1) [of shuffle split_data, OF assms] by simp
    show "0 < ncols" using pre by simp
    show "0 < sum_list (map (file_rows metadata d) (shuffle split_data))"
      using pre shuffle_facts(2) [of shuffle split_data "file_rows metadata d", OF assms] by simp
  qed
qed

text \<open>
  The third scenario of the specification: three files of shape (10, 128) in an event
  split give the dimensions (30, 128) and 30 labels and (file, timestamp) pairs.
\<close>

theorem consolidation_counts_witness:
  "mset (id [''a'', ''b'', ''c'']) = mset [''a'', ''b'', ''c''] \<and>
   snd (memmap_embeddings id event_md three_files [''a'', ''b'', ''c'']) = None \<and>
   embedding_dimensions_json (fst (memmap_embeddings id event_md three_files [''a'', ''b'', ''c'']))
     = Some (30, 128) \<and>
   map_option length
     (target_labels_pkl (fst (memmap_embeddings id event_md three_files [''a'', ''b'', ''c''])))
     = Some 30 \<and>
   map_option length
     (filename_timestamps_json (fst (memmap_embeddings id event_md three_files [''a'', ''b'', ''c''])))
     = Some 30"
proof -
  let ?run = "memmap_embeddings id event_md three_files [''a'', ''b'', ''c'']"
  have perm: "mset (id [''a'', ''b'', ''c'']) = mset [''a'', ''b'', ''c'']" by simp
  note inst = consolidation_counts [of id "[''a'', ''b'', ''c'']" event_md three_files "fst ?run" 128, OF perm]
  have pos: "0 < sum_list (map (file_rows event_md three_files) [''a'', ''b'', ''c''])"
    unfolding three_files_rows by simp
  have pre: "[''a'', ''b'', ''c''] \<noteq> [] \<and>
      (\<forall>f\<in>set [''a'', ''b'', ''c'']. consistent_file event_md three_files 128 f) \<and>
      (0 :: nat) < 128 \<and> 0 < sum_list (map (file_rows event_md three_files) [''a'', ''b'', ''c''])"
  proof (intro conjI)
    show "[''a'', ''b'', ''c''] \<noteq> []" by simp
    show "\<forall>f\<in>set [''a'', ''b'', ''c'']. consistent_file event_md three_files 128 f"
      by (rule three_files_consistent)
    show "(0 :: nat) < 128" by simp
    show "0 < sum_list (map (file_rows event_md three_files) [''a'', ''b'', ''c''])"
      by (rule pos)
  qed
  have ok: "snd ?run = None"
    using inst [THEN conjunct2] pre by (rule mp)
  then have run: "?run = (fst ?run, None)" by (metis prod.collapse)
  have cols: "file_columns three_files (last (id [''a'', ''b'', ''c''])) = 128"
    by (simp add: file_columns_def three_files_def Let_def)
  have ev: "\<not> is_scene event_md" by (simp add: is_scene_def event_md_def)
  note props = inst [THEN conjunct1, THEN mp, OF run, unfolded three_files_rows cols]
  have "embedding_dimensions_json (fst ?run) = Some (30, 128)"
    using props by blast
  moreover have "map_option length (target_labels_pkl (fst ?run)) = Some 30"
    using props by auto
  moreover have "map_option length (filename_timestamps_json (fst ?run)) = Some 30"
    using props ev by auto
  ultimately show ?thesis using ok by simp
qed

text \<open>
  Claim C7, amended. For an embedding type with an asserted rank, pass 1 checks that
  every embedding file exists and has that rank: if one does not, the consolidator ends
  with \<^verbatim>\<open>AssertionError\<close> before any split-level file is written or the array is
  allocated; if all do, pass 1 succeeds whatever the stored element types and the column
  counts are, and reports the rows of all files and the columns of the last one.
\<close>

theorem pass1_checks_rank_only:
  assumes "required_rank (embedding_type metadata) = Some r"
  shows "((\<exists>f\<in>set (shuffle split_data). \<not> rank_ok metadata d f) \<longrightarrow>
            memmap_embeddings shuffle metadata d split_data = (no_files, Some AssertionError)) \<and>
         ((\<forall>f\<in>set (shuffle split_data). rank_ok metadata d f) \<longrightarrow>
            sizing_pass metadata d (shuffle split_data) (0, None) =
              Inr (sum_list (map (file_rows metadata d) (shuffle split_data)),
                   if shuffle split_data = [] then None
                   else Some (file_columns d (last (shuffle split_data)))))"
proof (intro conjI impI)
  assume "\<exists>f\<in>set (shuffle split_data). \<not> rank_ok metadata d f"
  then have "sizing_pass metadata d (shuffle split_data) (0, None) = Inl AssertionError"
    using sizing_pass_bad [OF _ assms] by blast
  then show "memmap_embeddings shuffle metadata d split_data = (no_files, Some AssertionError)"
    by (simp add: memmap_embeddings_def)
next
  assume "\<forall>f\<in>set (shuffle split_data). rank_ok metadata d f"
  then show "sizing_pass metadata d (shuffle split_data) (0, None) =
              Inr (sum_list (map (file_rows metadata d) (shuffle split_data)),
                   if shuffle split_data = [] then None
                   else Some (file_columns d (last (shuffle split_data))))"
    using sizing_pass_ok [of "shuffle split_data" metadata d 0 None] by simp
qed

text \<open>
  A matrix in a scene split is refused; two vectors of 3 and 5 cells pass with the
  dimensions (2, 5).
\<close>

theorem pass1_checks_rank_only_witness:
  "required_rank (embedding_type scene_md) = Some 1 \<and>
   memmap_embeddings id scene_md matrix_file [''a''] = (no_files, Some AssertionError) \<and>
   sizing_pass scene_md mixed_files (id [''a'', ''b'']) (0, None) = Inr (2, Some 5)"
proof -
  have r: "required_rank (embedding_type scene_md) = Some 1"
    by (simp add: required_rank_def scene_md_def)
  have bad: "\<exists>f\<in>set (id [''a'']). \<not> rank_ok scene_md matrix_file f"
    by (simp add: rank_ok_def matrix_file_def scene_md_def required_rank_def)
  have good: "\<forall>f\<in>set (id [''a'', ''b'']). rank_ok scene_md mixed_files f"
    by (simp add: rank_ok_def mixed_files_def scene_md_def required_rank_def)
  have "memmap_embeddings id scene_md matrix_file [''a''] = (no_files, Some AssertionError)"
    using pass1_checks_rank_only [OF r, of id "[''a'']" matrix_file] bad by blast
  moreover have "sizing_pass scene_md mixed_files (id [''a'', ''b'']) (0, None) =
      Inr (sum_list (map (file_rows scene_md mixed_files) (id [''a'', ''b''])),
           if id [''a'', ''b''] = [] then None
           else Some (file_columns mixed_files (last (id [''a'', ''b'']))))"
    using pass1_checks_rank_only [OF r, of id "[''a'', ''b'']" mixed_files] good by blast
  ultimately show ?thesis using r
    by (simp add: file_rows_def file_columns_def mixed_files_def scene_md_def)
qed

text \<open>
  The claim as stated fails: for scene vectors of 3 and 5 cells, the first stored as
  64-bit floats, pass 1 succeeds, the dimension file is written and the array allocated,
  and only the assignment in pass 2 raises; a single vector stored as 64-bit floats is
  consolidated without any error.
\<close>

theorem pass1_accepts_dtype_and_column_mismatch:
  "memmap_embeddings id scene_md mixed_files [''a'', ''b''] =
     (\<lparr>embedding_dimensions_json = Some (2, 5), embeddings_npy = Some (2, 5),
       target_labels_pkl = None, filename_timestamps_json = None\<rparr>, Some ValueError) \<and>
   memmap_embeddings id scene_md float64_file [''a''] =
     (\<lparr>embedding_dimensions_json = Some (1, 4), embeddings_npy = Some (1, 4),
       target_labels_pkl = Some [JArray [JString ''x'', JString ''y'']],
       filename_timestamps_json = None\<rparr>, None)"
  by (simp add: memmap_embeddings_def size_file_def fill_file_def fill_scene_def
      check_scene_labels_def mixed_files_def float64_file_def scene_md_def no_files_def
      ndim_def astype_def broadcastable_def Let_def)

text \<open>
  Claim C8. For a scene split, a label list of two labels is refused with
  \<^verbatim>\<open>AssertionError\<close> under the prediction type multiclass, but under a prediction type
  that is neither multiclass nor multilabel the consolidator completes and stores the
  list: the \<^verbatim>\<open>NotImplementedError\<close> of that branch is built and never raised.
\<close>

theorem unknown_prediction_type_not_raised:
  "memmap_embeddings id regression_md float64_file [''a''] =
     (\<lparr>embedding_dimensions_json = Some (1, 4), embeddings_npy = Some (1, 4),
       target_labels_pkl = Some [JArray [JString ''x'', JString ''y'']],
       filename_timestamps_json = None\<rparr>, None) \<and>
   memmap_embeddings id (regression_md\<lparr>prediction_type := ''multiclass''\<rparr>) float64_file [''a''] =
     (\<lparr>embedding_dimensions_json = Some (1, 4), embeddings_npy = Some (1, 4),
       target_labels_pkl = None, filename_timestamps_json = None\<rparr>, Some AssertionError)"
  by (simp add: memmap_embeddings_def size_file_def fill_file_def fill_scene_def
      check_scene_labels_def float64_file_def regression_md_def no_files_def py_len_def
      ndim_def astype_def broadcastable_def Let_def)

end
